theory Spec2Isabelle
  imports Complex_Main "HOL-Library.AList"
begin

section \<open>Python values, dictionaries and exceptions\<close>

text \<open>
  The class \<^verbatim>\<open>camb\<close> of \<^verbatim>\<open>cobaya/theories/camb/camb.py\<close> is embedded with explicit state
  passing: every method takes the object (\<open>self\<close>) and returns the updated object together
  with either its return value or the exception it raises. An exception leaves the
  mutations made before it in place, exactly as in Python.
\<close>

datatype error =
    LoggedError string
  | CAMBParamRangeError
  | CAMBValueError
  | CAMBUnknownArgumentError
  | CAMBError
  | AttributeError
  | TypeError
  | ValueError
  | KeyError
  | IndexError

text \<open>
  A Python \<^verbatim>\<open>dict\<close> with string keys is an association list with distinct keys in
  insertion order. \<open>d[k] = v\<close> is \<^const>\<open>AList.update\<close> (an existing key keeps its place),
  \<open>d.pop(k, None)\<close> is \<^const>\<open>AList.delete\<close>, \<open>d.get(k)\<close> is \<^const>\<open>map_of\<close>. Python's
  \<open>==\<close> on two dicts ignores the order of insertion.
\<close>

type_synonym 'v dict = "(string \<times> 'v) list"

definition dict_eq :: "'v dict \<Rightarrow> 'v dict \<Rightarrow> bool" where
  "dict_eq a b \<longleftrightarrow> set a = set b"

definition dict_update :: "('k \<times> 'v) list \<Rightarrow> ('k \<times> 'v) list \<Rightarrow> ('k \<times> 'v) list" where
  "dict_update d e = foldl (\<lambda>acc kv. AList.update (fst kv) (snd kv) acc) d e"

datatype pyarg = Num real | Arr "real list" | Flag bool | Str string

type_synonym args = "pyarg dict"

datatype nonlinear_model = NonLinear_both | NonLinear_lens | NonLinear_pk

datatype attrval = AFlag bool | ANonLinear nonlinear_model

section \<open>Arrays, the store, and what a slot holds\<close>

text \<open>
  numpy arrays are mutable objects that the slots, the accessors and the callers can
  share, so they live in a store: a reference is an index into the list \<open>heap\<close>, and
  allocation appends.
\<close>

datatype ndarray = Arr1 "real list" | Arr2 "real list list"

type_synonym ref = nat

text \<open>What an extraction function of the solver returns, before it is stored.\<close>

datatype 'r pyval =
    VArr ndarray
  | VDict "(string \<times> ndarray) list"
  | VTuple "ndarray list"
  | VData 'r

text \<open>\<open>PowerSpectrumInterpolator(z, k, pk, logP=, extrap_kmax=)\<close>, an opaque object.\<close>

datatype interpolator =
  PowerSpectrumInterpolator "real list" "real list" "real list list" bool "real option"

datatype 'r product =
    PArr ref
  | PDict "(string \<times> ref) list"
  | PTuple "ref list"
  | PData 'r
  | PInterp interpolator

fun store_value :: "'r pyval \<Rightarrow> ndarray list \<Rightarrow> 'r product \<times> ndarray list" where
  "store_value (VArr a) h = (PArr (length h), h @ [a])"
| "store_value (VDict kvs) h =
     (PDict (zip (map fst kvs) [length h ..< length h + length kvs]), h @ map snd kvs)"
| "store_value (VTuple xs) h = (PTuple [length h ..< length h + length xs], h @ xs)"
| "store_value (VData r) h = (PData r, h)"

text \<open>
  The keys under which results are stored in a slot: a requirement name, the tuple
  \<open>("matter_power_spectrum", nonlinear, var1, var2)\<close>, or the tuple
  \<open>("Pk_interpolator", nonlinear, extrap_kmax, var1, var2)\<close> that \<open>get_Pk_interpolator\<close>
  writes. The five bookkeeping entries of a slot dictionary (\<open>params\<close>, \<open>derived\<close>,
  \<open>derived_extra\<close>, \<open>last\<close>, \<open>set_args\<close>) are fields of the record; \<open>needs\<close> never
  registers a collector under one of those names.
\<close>

datatype key =
    Name string
  | MatterPower bool string string
  | PkInterp bool "real option" string string

record 'r slot =
  params :: "real dict option"
  derived :: "real dict option"
  derived_extra :: "real option dict option"
  last_st :: int
  set_args :: "args option"
  products :: "key \<rightharpoonup> 'r product"

definition empty_slot :: "'r slot" where
  "empty_slot = \<lparr>params = None, derived = None, derived_extra = None, last_st = 0,
     set_args = None, products = Map.empty\<rparr>"

section \<open>Collectors and the external solver\<close>

datatype cmethod =
    Get_cmb_power_spectra
  | H_of_z
  | Angular_diameter_distance
  | Comoving_radial_distance
  | Get_fsigma8
  | Get_linear_matter_power_spectrum
  | Get_source_cls_dict

datatype kwarg = KwZ "real list" | KwSpectra "string list" | KwFlag bool | KwStr string
  | KwNum real

record collector =
  cmethod :: "cmethod option"
  cargs :: "kwarg list"
  kwargs :: "kwarg dict"

text \<open>
  The CAMB library is not part of the repository: it is a parameter of the model.
  \<open>'cp\<close> is \<open>CAMBparams\<close>, \<open>'r\<close> is \<open>CAMBdata\<close>.
  \<^item> \<open>set_params base kw\<close> is \<open>camb.set_params(base, **kw)\<close>, which raises
    \<open>CAMBParamRangeError\<close>, \<open>CAMBValueError\<close> or \<open>CAMBUnknownArgumentError\<close>;
  \<^item> \<open>fixed_params\<close> lists \<open>getfullargspec(f).args[1:]\<close> for \<open>set_classes\<close>,
    \<open>set_matter_power\<close> and \<open>set_for_lmax\<close>, in that order; \<open>lmax_params\<close> is the last;
  \<^item> \<open>run_method m r a kw\<close> is \<open>m(r, *a, **kw)\<close> for a method \<open>m\<close> of \<open>CAMBdata\<close>; \<open>Inl\<close>
    is a raised \<open>CAMBError\<close>;
  \<^item> \<open>lookup_attr\<close> is the attribute search of \<open>_get_derived_from_params\<close> and
    \<open>getter\<close> the call \<open>get_<p>()\<close> of \<open>_get_derived_from_getter\<close>.
\<close>

record ('cp, 'r) solver =
  set_params :: "'cp option \<Rightarrow> args \<Rightarrow> error + 'cp"
  fixed_params :: "string list"
  lmax_params :: "string list"
  has_attr :: "string \<Rightarrow> bool"
  set_attr :: "'cp \<Rightarrow> string \<Rightarrow> attrval \<Rightarrow> 'cp"
  set_source_windows :: "'cp \<Rightarrow> (string \<times> args) list \<Rightarrow> bool \<Rightarrow> 'cp"
  get_results :: "'cp \<Rightarrow> error + 'r"
  get_background :: "'cp \<Rightarrow> error + 'r"
  run_method :: "cmethod \<Rightarrow> 'r \<Rightarrow> kwarg list \<Rightarrow> kwarg dict \<Rightarrow> unit + 'r pyval"
  get_derived_params :: "'r \<Rightarrow> real dict"
  get_sigma8 :: "'r \<Rightarrow> real list"
  lookup_attr :: "'cp \<Rightarrow> 'r option \<Rightarrow> string \<Rightarrow> real option"
  getter :: "'cp \<Rightarrow> string \<Rightarrow> real option"
  version_ok :: bool

section \<open>The theory object\<close>

datatype requirement =
    ReqCl "nat dict"
  | ReqZ "real list"
  | ReqPk real "real list" "(string \<times> string) list" "bool option" bool bool
  | ReqSource "args dict" "bool option" "bool option" "nat option"
  | ReqNone
  | ReqOther

record ('cp, 'r) camb =
  states :: "'r slot list"
  collectors :: "(key \<times> collector option) list"
  extra_args :: args
  extra_attrs :: "attrval dict"
  input_params :: "string list"
  output_params :: "string list"
  planck_to_camb :: "string dict"
  use_planck_names :: bool
  stop_at_error :: bool
  derived_extra_names :: "string list"
  needs_perts :: bool
  limber :: bool
  non_linear_lens :: bool
  non_linear_pk :: bool
  base_params :: "'cp option"
  reduced_extra_args :: args
  sources :: "args dict option"
  H_units_conv_factor :: "real dict option"
  needs_acc :: "requirement dict"
  heap :: "ndarray list"
  solver_calls :: nat

text \<open>
  \<open>_n_states\<close> is set to 3 in \<open>initialize\<close> together with the list \<open>_states\<close> and never
  changes, so it is the length of that list. \<open>solver_calls\<close> is not an attribute of the
  Python object: it counts the calls made into the CAMB library (\<open>set_params\<close>,
  \<open>get_results\<close>, \<open>get_background\<close>), the effect that a cache hit is meant to save.
\<close>

definition n_states :: "('cp, 'r) camb \<Rightarrow> nat" where
  "n_states self = length (states self)"

definition initialize :: "('cp, 'r) camb \<Rightarrow> error + ('cp, 'r) camb" where
  "initialize self =
     (let self' = self\<lparr>states := replicate 3 empty_slot, collectors := [],
            extra_attrs := [(''Want_CMB'', AFlag False), (''Want_cl_2D_array'', AFlag False),
                            (''WantCls'', AFlag False)]\<rparr>
      in if 1 < card (set (input_params self) \<inter> {''H0'', ''cosmomc_theta'', ''thetastar''})
         then Inl (LoggedError ''Can't pass more than one of H0, theta, cosmomc_theta to CAMB.'')
         else Inr (self'\<lparr>derived_extra_names := [], needs_perts := False, limber := False,
                non_linear_lens := False, non_linear_pk := False, base_params := None\<rparr>))"

definition translate_param :: "('cp, 'r) camb \<Rightarrow> string \<Rightarrow> string" where
  "translate_param self p =
     (if use_planck_names self
      then (case map_of (planck_to_camb self) p of Some q \<Rightarrow> q | None \<Rightarrow> p)
      else p)"

text \<open>\<open>current_state\<close>: the first slot whose \<open>last\<close> is the maximum.\<close>

fun index_of :: "'a \<Rightarrow> 'a list \<Rightarrow> nat option" where
  "index_of x [] = None"
| "index_of x (y # ys) = (if y = x then Some 0 else map_option Suc (index_of x ys))"

definition lasts_of :: "('cp, 'r) camb \<Rightarrow> int list" where
  "lasts_of self = map last_st (states self)"

definition current_state :: "('cp, 'r) camb \<Rightarrow> error + nat" where
  "current_state self =
     (let lasts = lasts_of self
      in if lasts = [] then Inl ValueError
         else (case index_of (Max (set lasts)) lasts of
                 None \<Rightarrow> Inl ValueError
               | Some i \<Rightarrow> Inr i))"

section \<open>Setting the parameters of one evaluation: \<open>set\<close>\<close>

definition upd_slot :: "nat \<Rightarrow> ('r slot \<Rightarrow> 'r slot) \<Rightarrow> ('cp, 'r) camb \<Rightarrow> ('cp, 'r) camb" where
  "upd_slot i f self = self\<lparr>states := (states self)[i := f (states self ! i)]\<rparr>"

text \<open>
  The loop over the argument names of \<open>set_classes\<close>, \<open>set_matter_power\<close> and
  \<open>set_for_lmax\<close>: a sampled parameter among them is an error, the others are popped
  from \<open>_reduced_extra_args\<close>.
\<close>

fun check_fixed :: "string list \<Rightarrow> args \<Rightarrow> args \<Rightarrow> string option \<times> args" where
  "check_fixed [] a red = (None, red)"
| "check_fixed (f # fs) a red =
     (if f \<in> fst ` set a then (Some f, red) else check_fixed fs a (AList.delete f red))"

fun set_attrs :: "('cp, 'r) solver \<Rightarrow> attrval dict \<Rightarrow> 'cp \<Rightarrow> error + 'cp" where
  "set_attrs sv [] p = Inr p"
| "set_attrs sv ((a, v) # rest) p =
     (if has_attr sv a then set_attrs sv rest (set_attr sv p a v)
      else Inl (LoggedError ''Some of the attributes to be set manually were not recognized''))"

text \<open>
  The loop over \<open>self.sources\<close>: \<open>function\<close> is popped from each window, the window is
  built from what remains, and \<open>function\<close> is put back (at the end of the dict). An
  unknown function type raises after the pop.
\<close>

fun make_windows :: "args dict \<Rightarrow> (string \<times> args) list \<Rightarrow> args dict
    \<Rightarrow> (error + (string \<times> args) list) \<times> args dict" where
  "make_windows [] acc done = (Inr acc, done)"
| "make_windows ((source, window) # rest) acc done =
     (let function = map_of window ''function''; window' = AList.delete ''function'' window
      in if function = Some (Str ''spline'')
         then make_windows rest (acc @ [(''spline'', window')])
                (done @ [(source, window' @ [(''function'', Str ''spline'')])])
         else if function = Some (Str ''gaussian'')
         then make_windows rest (acc @ [(''gaussian'', window')])
                (done @ [(source, window' @ [(''function'', Str ''gaussian'')])])
         else (Inl (LoggedError ''Unknown source window function type''),
               done @ (source, window') # rest))"

definition set_sources :: "('cp, 'r) solver \<Rightarrow> 'cp \<Rightarrow> ('cp, 'r) camb
    \<Rightarrow> (error + 'cp) \<times> ('cp, 'r) camb" where
  "set_sources sv p self =
     (case sources self of
        None \<Rightarrow> (Inr p, self)
      | Some [] \<Rightarrow> (Inr p, self)
      | Some srcs \<Rightarrow>
          (case make_windows srcs [] [] of
             (Inl e, srcs') \<Rightarrow> (Inl e, self\<lparr>sources := Some srcs'\<rparr>)
           | (Inr ws, srcs') \<Rightarrow>
               (Inr (set_source_windows sv p ws (limber self)), self\<lparr>sources := Some srcs'\<rparr>)))"

text \<open>The block under \<open>if not self._base_params\<close>.\<close>

definition set_base :: "('cp, 'r) solver \<Rightarrow> args \<Rightarrow> ('cp, 'r) camb
    \<Rightarrow> (error + unit) \<times> ('cp, 'r) camb" where
  "set_base sv a self =
     (let base_args = dict_update a (extra_args self);
          self1 = self\<lparr>reduced_extra_args := extra_args self,
                       solver_calls := Suc (solver_calls self)\<rparr>
      in case set_params sv None base_args of
           Inl e \<Rightarrow> (Inl e, self1)
         | Inr p \<Rightarrow>
             (case check_fixed (fixed_params sv) a (reduced_extra_args self1) of
                (Some f, red) \<Rightarrow>
                  (Inl (LoggedError ''Trying to sample fixed theory parameter''),
                   self1\<lparr>reduced_extra_args := red\<rparr>)
              | (None, red) \<Rightarrow>
                  (let self2 = self1\<lparr>reduced_extra_args := red\<rparr>
                   in case set_attrs sv (extra_attrs self2) p of
                        Inl e \<Rightarrow> (Inl e, self2)
                      | Inr p' \<Rightarrow>
                          (case set_sources sv p' self2 of
                             (Inl e, self3) \<Rightarrow> (Inl e, self3)
                           | (Inr p'', self3) \<Rightarrow>
                               (Inr (), self3\<lparr>base_params := Some p''\<rparr>)))))"

text \<open>
  The \<open>except\<close> clauses of \<open>set\<close>. A range error is fatal under \<open>stop_at_error\<close> and
  otherwise falls through to \<open>return False\<close> (here \<open>Inr None\<close>).
\<close>

definition handle_set_error :: "bool \<Rightarrow> error \<Rightarrow> error + 'cp option" where
  "handle_set_error stop e =
     (if e = CAMBParamRangeError
      then (if stop then Inl (LoggedError ''Out of bound parameters'') else Inr None)
      else if e = CAMBUnknownArgumentError
      then Inl (LoggedError ''Some of the parameters passed to CAMB were not recognized'')
      else Inl e)"

definition camb_set :: "('cp, 'r) solver \<Rightarrow> real dict \<Rightarrow> nat \<Rightarrow> ('cp, 'r) camb
    \<Rightarrow> (error + 'cp option) \<times> ('cp, 'r) camb" where
  "camb_set sv pvd i self =
     (if length (states self) \<le> i then (Inl IndexError, self)
      else
       (let self1 = upd_slot i (\<lambda>st. st\<lparr>params := Some pvd\<rparr>) self;
            a = dict_update [] (map (\<lambda>pv. (translate_param self (fst pv), Num (snd pv))) pvd)
        in case (if base_params self1 = None
                 then (case set_base sv a self1 of
                         (Inl e, s) \<Rightarrow> (Inl e, s)
                       | (Inr u, s) \<Rightarrow> (Inr a, s))
                 else (Inr (dict_update a (reduced_extra_args self1)), self1)) of
             (Inl e, self2) \<Rightarrow> (handle_set_error (stop_at_error self2) e, self2)
           | (Inr a', self2) \<Rightarrow>
               (let self3 = (upd_slot i (\<lambda>st. st\<lparr>set_args := Some a'\<rparr>) self2)
                              \<lparr>solver_calls := Suc (solver_calls self2)\<rparr>
                in case set_params sv (base_params self3) a' of
                     Inl e \<Rightarrow> (handle_set_error (stop_at_error self3) e, self3)
                   | Inr cp \<Rightarrow> (Inr (Some cp), self3))))"

section \<open>Derived parameters\<close>

definition get_derived :: "('cp, 'r) solver \<Rightarrow> string \<Rightarrow> 'cp \<Rightarrow> 'r option
    \<Rightarrow> error + real option" where
  "get_derived sv p cp res =
     (if p = ''sigma8''
      then (case res of
              None \<Rightarrow> Inl AttributeError
            | Some r \<Rightarrow> (if get_sigma8 sv r = [] then Inl IndexError
                         else Inr (Some (last (get_sigma8 sv r)))))
      else (case (case res of None \<Rightarrow> None | Some r \<Rightarrow> map_of (get_derived_params sv r) p) of
              Some v \<Rightarrow> Inr (Some v)
            | None \<Rightarrow>
                (case lookup_attr sv cp res p of
                   Some v \<Rightarrow> Inr (Some v)
                 | None \<Rightarrow> Inr (getter sv cp p))))"

fun get_derived_all :: "('cp, 'r) solver \<Rightarrow> ('cp, 'r) camb \<Rightarrow> 'cp \<Rightarrow> 'r option
    \<Rightarrow> string list \<Rightarrow> real dict \<Rightarrow> error + real dict" where
  "get_derived_all sv self cp res [] acc = Inr acc"
| "get_derived_all sv self cp res (p # ps) acc =
     (case get_derived sv (translate_param self p) cp res of
        Inl e \<Rightarrow> Inl e
      | Inr None \<Rightarrow> Inl (LoggedError ''Derived param not implemented in the CAMB interface'')
      | Inr (Some v) \<Rightarrow> get_derived_all sv self cp res ps (AList.update p v acc))"

fun get_derived_extra :: "('cp, 'r) solver \<Rightarrow> 'cp \<Rightarrow> 'r option \<Rightarrow> string list
    \<Rightarrow> real option dict \<Rightarrow> error + real option dict" where
  "get_derived_extra sv cp res [] acc = Inr acc"
| "get_derived_extra sv cp res (p # ps) acc =
     (case get_derived sv p cp res of
        Inl e \<Rightarrow> Inl e
      | Inr v \<Rightarrow> get_derived_extra sv cp res ps (AList.update p v acc))"

section \<open>The computation driver: \<open>compute\<close>\<close>

fun first_index :: "('a \<Rightarrow> bool) \<Rightarrow> 'a list \<Rightarrow> nat option" where
  "first_index P [] = None"
| "first_index P (x # xs) = (if P x then Some 0 else map_option Suc (first_index P xs))"

text \<open>\<open>self._states[i]["params"] == params_values_dict\<close>; \<open>None\<close> equals no dict.\<close>

definition holds :: "real dict \<Rightarrow> 'r slot \<Rightarrow> bool" where
  "holds pvd st = (case params st of None \<Rightarrow> False | Some q \<Rightarrow> dict_eq q pvd)"

definition has_all_products :: "(key \<times> collector option) list \<Rightarrow> 'r slot \<Rightarrow> bool" where
  "has_all_products cs st = list_all (\<lambda>kc. products st (fst kc) \<noteq> None) cs"

text \<open>
  The \<open>try\<close> block of \<open>compute\<close>: \<open>Some i\<close> when slot \<open>i\<close> is the first that holds the
  parameters and it has an entry for every collector; \<open>None\<close> is \<open>StopIteration\<close>.
\<close>

definition lookup :: "bool \<Rightarrow> real dict \<Rightarrow> ('cp, 'r) camb \<Rightarrow> nat option" where
  "lookup cached pvd self =
     (if \<not> cached then None
      else (case first_index (holds pvd) (states self) of
              None \<Rightarrow> None
            | Some i \<Rightarrow>
                if has_all_products (collectors self) (states self ! i) then Some i else None))"

text \<open>The last three lines of \<open>compute\<close>: all slots age by \<open>max(lasts)\<close>, slot \<open>i\<close> gets 1.\<close>

definition touch :: "int list \<Rightarrow> nat \<Rightarrow> 'r slot list \<Rightarrow> 'r slot list" where
  "touch lasts i sts =
     (let aged = map (\<lambda>st. st\<lparr>last_st := last_st st - Max (set lasts)\<rparr>) sts
      in aged[i := (aged ! i)\<lparr>last_st := 1\<rparr>])"

text \<open>\<open>self._states[i][product] = value\<close>.\<close>

definition put_product :: "nat \<Rightarrow> key \<Rightarrow> 'r product \<Rightarrow> ('cp, 'r) camb \<Rightarrow> ('cp, 'r) camb" where
  "put_product i k p self = upd_slot i (\<lambda>st. st\<lparr>products := (products st)(k \<mapsto> p)\<rparr>) self"

fun run_collectors :: "('cp, 'r) solver \<Rightarrow> 'r \<Rightarrow> nat \<Rightarrow> (key \<times> collector option) list
    \<Rightarrow> ('cp, 'r) camb \<Rightarrow> (error + bool) \<times> ('cp, 'r) camb" where
  "run_collectors sv res i [] self = (Inr True, self)"
| "run_collectors sv res i ((product, c) # cs) self =
     (case c of
        None \<Rightarrow> (Inl AttributeError, self)
      | Some col \<Rightarrow>
          (case cmethod col of
             None \<Rightarrow> run_collectors sv res i cs (put_product i product (PData res) self)
           | Some m \<Rightarrow>
               (case run_method sv m res (cargs col) (kwargs col) of
                  Inl u \<Rightarrow> (if stop_at_error self then (Inl CAMBError, self)
                            else (Inr False, self))
                | Inr v \<Rightarrow>
                    run_collectors sv res i cs
                      (put_product i product (fst (store_value v (heap self)))
                         (self\<lparr>heap := snd (store_value v (heap self))\<rparr>)))))"

definition get_all_results :: "('cp, 'r) solver \<Rightarrow> 'cp \<Rightarrow> ('cp, 'r) camb
    \<Rightarrow> (error + 'r option) \<times> ('cp, 'r) camb" where
  "get_all_results sv cp self =
     (if collectors self = [] then (Inr None, self)
      else (case (if needs_perts self then get_results sv cp else get_background sv cp) of
              Inl e \<Rightarrow> (Inl e, self\<lparr>solver_calls := Suc (solver_calls self)\<rparr>)
            | Inr r \<Rightarrow> (Inr (Some r), self\<lparr>solver_calls := Suc (solver_calls self)\<rparr>)))"

text \<open>
  The derived parameters of a fresh computation. \<open>_derived\<close> is the caller's dict,
  filled in place when it is passed empty; its final content is returned.
\<close>

definition store_derived :: "('cp, 'r) solver \<Rightarrow> real dict option \<Rightarrow> 'cp \<Rightarrow> 'r option \<Rightarrow> nat
    \<Rightarrow> ('cp, 'r) camb \<Rightarrow> (error + real dict option) \<times> ('cp, 'r) camb" where
  "store_derived sv dv cp res i self =
     (case (if dv = Some []
            then (case get_derived_all sv self cp res (output_params self) [] of
                    Inl e \<Rightarrow> (Inl e, self)
                  | Inr d \<Rightarrow> (Inr (Some d), upd_slot i (\<lambda>st. st\<lparr>derived := Some d\<rparr>) self))
            else (Inr dv, self)) of
        (Inl e, self1) \<Rightarrow> (Inl e, self1)
      | (Inr dv', self1) \<Rightarrow>
          (case get_derived_extra sv cp res (derived_extra_names self1) [] of
             Inl e \<Rightarrow> (Inl e, self1)
           | Inr de \<Rightarrow> (Inr dv', upd_slot i (\<lambda>st. st\<lparr>derived_extra := Some de\<rparr>) self1)))"

type_synonym ('cp, 'r) outcome = "((error + nat) \<times> real dict option) \<times> ('cp, 'r) camb"

definition compute_miss :: "('cp, 'r) solver \<Rightarrow> real dict option \<Rightarrow> real dict \<Rightarrow> int list
    \<Rightarrow> ('cp, 'r) camb \<Rightarrow> ('cp, 'r) outcome" where
  "compute_miss sv dv pvd lasts self =
     (case index_of (Min (set lasts)) lasts of
        None \<Rightarrow> ((Inl ValueError, dv), self)
      | Some i \<Rightarrow>
          (case camb_set sv pvd i self of
             (Inl e, s1) \<Rightarrow> ((Inl e, dv), s1)
           | (Inr None, s1) \<Rightarrow> ((Inr 0, dv), s1)
           | (Inr (Some cp), s1) \<Rightarrow>
               (case get_all_results sv cp s1 of
                  (Inl e, s2) \<Rightarrow> ((Inl e, dv), s2)
                | (Inr res, s2) \<Rightarrow>
                    (case (case res of
                             None \<Rightarrow> (Inr True, s2)
                           | Some r \<Rightarrow> run_collectors sv r i (collectors s2) s2) of
                       (Inl e, s3) \<Rightarrow> ((Inl e, dv), s3)
                     | (Inr False, s3) \<Rightarrow> ((Inr 0, dv), s3)
                     | (Inr True, s3) \<Rightarrow>
                         (case store_derived sv dv cp res i s3 of
                            (Inl e, s4) \<Rightarrow> ((Inl e, dv), s4)
                          | (Inr dv', s4) \<Rightarrow>
                              ((Inr 2, dv'), s4\<lparr>states := touch lasts i (states s4)\<rparr>))))))"

definition compute_hit :: "real dict option \<Rightarrow> nat \<Rightarrow> int list \<Rightarrow> ('cp, 'r) camb
    \<Rightarrow> ('cp, 'r) outcome" where
  "compute_hit dv i lasts self =
     ((Inr 1,
       (if dv = Some []
        then Some (dict_update [] (case derived (states self ! i) of None \<Rightarrow> [] | Some d \<Rightarrow> d))
        else dv)),
      self\<lparr>states := touch lasts i (states self)\<rparr>)"

definition compute :: "('cp, 'r) solver \<Rightarrow> real dict option \<Rightarrow> bool \<Rightarrow> real dict
    \<Rightarrow> ('cp, 'r) camb \<Rightarrow> ('cp, 'r) outcome" where
  "compute sv dv cached pvd self =
     (let lasts = lasts_of self
      in case lookup cached pvd self of
           Some i \<Rightarrow> compute_hit dv i lasts self
         | None \<Rightarrow> compute_miss sv dv pvd lasts self)"

section \<open>numpy, as far as \<open>needs\<close> uses it\<close>

text \<open>
  \<open>np.concatenate(arrays, axis=0)\<close> takes the sequence of arrays as its first argument
  and the axis as its second. The axis must be an integer; an array in its place is a
  \<open>TypeError\<close>. Every element of the sequence must have at least one dimension: a
  1-d array passed as the sequence itself is a sequence of 0-d scalars, which cannot be
  concatenated (\<open>ValueError\<close>), as an empty sequence cannot.
  \<open>np.unique\<close> returns the sorted distinct elements, \<open>np.sort\<close> sorts ascending,
  \<open>[::-1]\<close> reverses. \<open>np.atleast_1d\<close> of a list is that list as an array.
\<close>

datatype nd = Nd0 real | Nd1 "real list"

datatype axis = AxisInt int | AxisArr "real list"

fun nd_elems :: "nd \<Rightarrow> real list option" where
  "nd_elems (Nd0 x) = None"
| "nd_elems (Nd1 xs) = Some xs"

fun np_concatenate :: "nd list \<Rightarrow> axis \<Rightarrow> error + real list" where
  "np_concatenate arrs (AxisArr a) = Inl TypeError"
| "np_concatenate arrs (AxisInt n) =
     (if arrs = [] \<or> None \<in> set (map nd_elems arrs) then Inl ValueError
      else if n \<noteq> 0 \<and> n \<noteq> - 1 then Inl ValueError
      else Inr (concat (map (\<lambda>a. case nd_elems a of Some xs \<Rightarrow> xs | None \<Rightarrow> []) arrs)))"

definition np_unique :: "real list \<Rightarrow> real list" where
  "np_unique xs = sort (remdups xs)"

definition np_sort :: "real list \<Rightarrow> real list" where
  "np_sort xs = sort xs"

section \<open>Declaring requirements: \<open>needs\<close>\<close>

text \<open>
  Modelled from the spec: \<open>_cosmo.needs\<close>, the method of the parent class that
  \<open>camb.needs\<close> calls first (\<open>cobaya/theories/_cosmo.py\<close> is not among the source
  files). Section 4.1 of the specification: a requirement for a new quantity is stored
  verbatim; one for a known quantity is merged field by field, bounds by maximum, sets
  (redshifts, variable pairs, named sources) by union, enabling flags by disjunction;
  incompatible requests fail.
\<close>

definition merge_flag :: "bool option \<Rightarrow> bool option \<Rightarrow> bool option" where
  "merge_flag a b = (case a of None \<Rightarrow> b | Some x \<Rightarrow> (case b of None \<Rightarrow> a | Some y \<Rightarrow> Some (x \<or> y)))"

definition merge_bound :: "nat option \<Rightarrow> nat option \<Rightarrow> nat option" where
  "merge_bound a b = (case a of None \<Rightarrow> b | Some x \<Rightarrow> (case b of None \<Rightarrow> a | Some y \<Rightarrow> Some (max x y)))"

definition merge_max :: "nat dict \<Rightarrow> nat dict \<Rightarrow> nat dict" where
  "merge_max a b =
     foldl (\<lambda>acc kv. AList.update (fst kv)
              (max (snd kv) (case map_of acc (fst kv) of None \<Rightarrow> 0 | Some w \<Rightarrow> w)) acc) a b"

fun merge_sources :: "args dict \<Rightarrow> args dict \<Rightarrow> error + args dict" where
  "merge_sources a [] = Inr a"
| "merge_sources a ((source, window) # rest) =
     (case map_of a source of
        None \<Rightarrow> merge_sources (a @ [(source, window)]) rest
      | Some old \<Rightarrow> if dict_eq old window then merge_sources a rest
                    else Inl (LoggedError ''ConflictingRequirement''))"

fun merge_requirement :: "requirement \<Rightarrow> requirement \<Rightarrow> error + requirement" where
  "merge_requirement (ReqCl a) (ReqCl b) = Inr (ReqCl (merge_max a b))"
| "merge_requirement (ReqZ a) (ReqZ b) = Inr (ReqZ (remdups (a @ b)))"
| "merge_requirement (ReqPk ka za pa na ha ua) (ReqPk kb zb pb nb hb ub) =
     Inr (ReqPk (max ka kb) (remdups (za @ zb)) (remdups (pa @ pb)) (merge_flag na nb)
            (ha \<or> hb) (ua \<or> ub))"
| "merge_requirement (ReqSource sa la na ma) (ReqSource sb lb nb mb) =
     (case merge_sources sa sb of
        Inl e \<Rightarrow> Inl e
      | Inr srcs \<Rightarrow> Inr (ReqSource srcs (merge_flag la lb) (merge_flag na nb) (merge_bound ma mb)))"
| "merge_requirement ReqNone ReqNone = Inr ReqNone"
| "merge_requirement a b = Inl (LoggedError ''ConflictingRequirement'')"

fun cosmo_needs :: "requirement dict \<Rightarrow> ('cp, 'r) camb \<Rightarrow> error option \<times> ('cp, 'r) camb" where
  "cosmo_needs [] self = (None, self)"
| "cosmo_needs ((k, v) # rest) self =
     (case map_of (needs_acc self) k of
        None \<Rightarrow> cosmo_needs rest (self\<lparr>needs_acc := needs_acc self @ [(k, v)]\<rparr>)
      | Some old \<Rightarrow>
          (case merge_requirement old v of
             Inl e \<Rightarrow> (Some e, self)
           | Inr m \<Rightarrow> cosmo_needs rest (self\<lparr>needs_acc := AList.update k m (needs_acc self)\<rparr>)))"

text \<open>
  Modelled from the spec: the constants \<open>_c_km_s\<close> and \<open>_T_CMB_K\<close> of
  \<open>cobaya.conventions\<close>, which is not among the source files: the speed of light in
  km/s (the "documented physical constant" of the Hubble-rate conversion) and the CMB
  temperature in K.
\<close>

definition c_km_s :: real where
  "c_km_s = 299792.458"

definition T_CMB_K :: real where
  "T_CMB_K = 2.7255"

definition lower_char :: "char \<Rightarrow> char" where
  "lower_char c = (let n = (of_char c :: nat) in if 65 \<le> n \<and> n \<le> 90 then char_of (n + 32) else c)"

definition lower :: "string \<Rightarrow> string" where
  "lower s = map lower_char s"

definition num_arg :: "args \<Rightarrow> string \<Rightarrow> real" where
  "num_arg a k = (case map_of a k of Some (Num x) \<Rightarrow> x | _ \<Rightarrow> 0)"

text \<open>\<open>_combine_z\<close>, with the two arguments of \<open>np.concatenate\<close> as the source passes them.\<close>

definition combine_z :: "key \<Rightarrow> real list \<Rightarrow> ('cp, 'r) camb \<Rightarrow> error + real list" where
  "combine_z k z self =
     (case map_of (collectors self) k of
        Some (Some c) \<Rightarrow>
          (case map_of (kwargs c) ''z'' of
             Some (KwZ cz) \<Rightarrow>
               (case np_concatenate (map Nd0 cz) (AxisArr z) of
                  Inl e \<Rightarrow> Inl e
                | Inr xs \<Rightarrow> Inr (np_sort (np_unique xs)))
           | _ \<Rightarrow> Inl KeyError)
      | _ \<Rightarrow> Inr (np_sort z))"

definition add_to_redshifts :: "real list \<Rightarrow> ('cp, 'r) camb \<Rightarrow> error option \<times> ('cp, 'r) camb" where
  "add_to_redshifts z self =
     (case np_concatenate
             [Nd1 z, (case map_of (extra_args self) ''redshifts'' of
                        None \<Rightarrow> Nd1 []
                      | Some (Arr old) \<Rightarrow> Nd1 old
                      | Some (Num x) \<Rightarrow> Nd0 x
                      | Some other \<Rightarrow> Nd0 0)] (AxisInt 0) of
        Inl e \<Rightarrow> (Some e, self)
      | Inr xs \<Rightarrow>
          (None, self\<lparr>extra_args :=
             AList.update ''redshifts'' (Arr (rev (np_sort (np_unique xs)))) (extra_args self)\<rparr>))"

definition set_collector :: "key \<Rightarrow> collector option \<Rightarrow> ('cp, 'r) camb \<Rightarrow> ('cp, 'r) camb" where
  "set_collector k c self = self\<lparr>collectors := AList.update k c (collectors self)\<rparr>"

definition set_attr_flag :: "string \<Rightarrow> ('cp, 'r) camb \<Rightarrow> ('cp, 'r) camb" where
  "set_attr_flag a self = self\<lparr>extra_attrs := AList.update a (AFlag True) (extra_attrs self)\<rparr>"

definition raise_lmax :: "real \<Rightarrow> ('cp, 'r) camb \<Rightarrow> ('cp, 'r) camb" where
  "raise_lmax l self =
     self\<lparr>extra_args := AList.update ''lmax'' (Num (max l (num_arg (extra_args self) ''lmax'')))
                            (extra_args self)\<rparr>"

definition z_collector :: "cmethod \<Rightarrow> real list \<Rightarrow> collector" where
  "z_collector m z = \<lparr>cmethod = Some m, cargs = [], kwargs = [(''z'', KwZ z)]\<rparr>"

text \<open>One round of the loop \<open>for k, v in self._needs.items()\<close>.\<close>

definition needs_Cl :: "nat dict \<Rightarrow> ('cp, 'r) camb \<Rightarrow> error option \<times> ('cp, 'r) camb" where
  "needs_Cl v self =
     (if v = [] then (Some ValueError, self)
      else
       (let self1 = raise_lmax (real (Max (set (map snd v)))) self;
            old = (case map_of (collectors self1) (Name ''Cl'') of
                     Some (Some c) \<Rightarrow>
                       (case map_of (kwargs c) ''spectra'' of Some (KwSpectra sp) \<Rightarrow> sp | _ \<Rightarrow> [])
                   | _ \<Rightarrow> []);
            spectra = remdups (old @ [''total'']
                        @ (if ''pp'' \<in> set (map (lower \<circ> fst) v) then [''lens_potential''] else []));
            self2 = set_collector (Name ''Cl'')
                      (Some \<lparr>cmethod = Some Get_cmb_power_spectra, cargs = [],
                             kwargs = [(''spectra'', KwSpectra spectra), (''raw_cl'', KwFlag True)]\<rparr>)
                      self1
        in (None, (set_attr_flag ''WantCls'' (set_attr_flag ''Want_CMB'' self2))
                    \<lparr>needs_perts := True, non_linear_lens := True\<rparr>)))"

definition needs_background :: "string \<Rightarrow> cmethod \<Rightarrow> real list \<Rightarrow> ('cp, 'r) camb
    \<Rightarrow> error option \<times> ('cp, 'r) camb" where
  "needs_background k m z self =
     (case combine_z (Name k) z self of
        Inl e \<Rightarrow> (Some e, self)
      | Inr zs \<Rightarrow> (None, set_collector (Name k) (Some (z_collector m zs)) self))"

definition needs_Pk :: "('cp, 'r) solver \<Rightarrow> string \<Rightarrow> requirement \<Rightarrow> ('cp, 'r) camb
    \<Rightarrow> error option \<times> ('cp, 'r) camb" where
  "needs_Pk sv k v self =
     (case v of
        ReqPk k_max z vars_pairs nonlinear hubble_units k_hunit \<Rightarrow>
          (let self1 = self\<lparr>extra_args :=
                 AList.update ''kmax'' (Num (max k_max (num_arg (extra_args self) ''kmax'')))
                   (extra_args self)\<rparr>
           in case add_to_redshifts z self1 of
                (Some e, self2) \<Rightarrow> (Some e, self2)
              | (None, self2) \<Rightarrow>
                  (let pairs = (if vars_pairs = [] then [(''delta_tot'', ''delta_tot'')]
                                else vars_pairs);
                       self3 = self2\<lparr>needs_acc := AList.update k
                                 (ReqPk k_max z pairs nonlinear hubble_units k_hunit)
                                 (needs_acc self2)\<rparr>
                   in if hubble_units \<or> k_hunit
                      then (Some (LoggedError ''hubble_units and k_hunit must be False for consistency''),
                            self3)
                      else if k \<noteq> ''Pk_interpolator'' \<and> nonlinear \<noteq> None
                      then (Some (LoggedError ''cannot use 'nonlinear' with xxx_matter_power_spectrum''),
                            self3)
                      else if k \<noteq> ''Pk_interpolator'' \<and> \<not> version_ok sv
                      then (Some (LoggedError ''update CAMB to 1.0.11+''), self3)
                      else
                       (let nl = (case nonlinear of None \<Rightarrow> True | Some b \<Rightarrow> b);
                            self4 = (if nl then self3\<lparr>non_linear_pk := True\<rparr> else self3);
                            kw = [(''hubble_units'', KwFlag False), (''k_hunit'', KwFlag False),
                                  (''nonlinear'', KwFlag nl),
                                  (''var1'', KwStr (fst (last pairs))),
                                  (''var2'', KwStr (snd (last pairs)))];
                            col = \<lparr>cmethod = Some Get_linear_matter_power_spectrum, cargs = [],
                                   kwargs = kw\<rparr>
                        in (None,
                            (foldl (\<lambda>acc pair. set_collector (MatterPower nl (fst pair) (snd pair))
                                                   (Some col) acc) self4 pairs)
                              \<lparr>needs_perts := True\<rparr>))))
      | _ \<Rightarrow> (Some TypeError, self))"

definition needs_source_Cl :: "requirement \<Rightarrow> ('cp, 'r) camb \<Rightarrow> error option \<times> ('cp, 'r) camb" where
  "needs_source_Cl v self =
     (case v of
        ReqSource srcs lmb non_linear lmax \<Rightarrow>
          (let cur = (case sources self of None \<Rightarrow> [] | Some c \<Rightarrow> c);
               cur' = foldl (\<lambda>acc sw. if fst sw \<in> fst ` set acc then acc else acc @ [sw]) cur srcs;
               self1 = self\<lparr>sources := Some cur',
                            limber := (case lmb of None \<Rightarrow> True | Some b \<Rightarrow> b),
                            non_linear_lens := (non_linear_lens self
                               \<or> (case non_linear of None \<Rightarrow> False | Some b \<Rightarrow> b))\<rparr>;
               self2 = (case lmax of None \<Rightarrow> self1 | Some l \<Rightarrow> raise_lmax (real l) self1);
               self3 = set_collector (Name ''source_Cl'')
                         (Some \<lparr>cmethod = Some Get_source_cls_dict, cargs = [], kwargs = []\<rparr>)
                         (self2\<lparr>needs_perts := True\<rparr>)
           in (None, set_attr_flag ''WantCls'' (set_attr_flag ''Want_cl_2D_array'' self3)))
      | _ \<Rightarrow> (Some TypeError, self))"

definition needs_one :: "('cp, 'r) solver \<Rightarrow> string \<Rightarrow> requirement \<Rightarrow> ('cp, 'r) camb
    \<Rightarrow> error option \<times> ('cp, 'r) camb" where
  "needs_one sv k v self =
     (if k = ''Cl'' then (case v of ReqCl d \<Rightarrow> needs_Cl d self | _ \<Rightarrow> (Some TypeError, self))
      else if k = ''H'' then
        (case v of
           ReqZ z \<Rightarrow>
             (case needs_background k H_of_z z self of
                (Some e, s) \<Rightarrow> (Some e, s)
              | (None, s) \<Rightarrow>
                  (None, s\<lparr>H_units_conv_factor := Some [(''1/Mpc'', 1), (''km/s/Mpc'', c_km_s)]\<rparr>))
         | _ \<Rightarrow> (Some TypeError, self))
      else if k = ''angular_diameter_distance'' then
        (case v of ReqZ z \<Rightarrow> needs_background k Angular_diameter_distance z self
         | _ \<Rightarrow> (Some TypeError, self))
      else if k = ''comoving_radial_distance'' then
        (case v of ReqZ z \<Rightarrow> needs_background k Comoving_radial_distance z self
         | _ \<Rightarrow> (Some TypeError, self))
      else if k = ''fsigma8'' then
        (case v of
           ReqZ z \<Rightarrow>
             (case add_to_redshifts z self of
                (Some e, s) \<Rightarrow> (Some e, s)
              | (None, s) \<Rightarrow>
                  (None, (set_collector (Name k)
                            (Some \<lparr>cmethod = Some Get_fsigma8, cargs = [], kwargs = []\<rparr>) s)
                           \<lparr>needs_perts := True\<rparr>))
         | _ \<Rightarrow> (Some TypeError, self))
      else if k = ''Pk_interpolator'' \<or> k = ''matter_power_spectrum'' then needs_Pk sv k v self
      else if k = ''source_Cl'' then needs_source_Cl v self
      else if k = ''CAMBdata'' then (None, set_collector (Name k) None self)
      else if v = ReqNone then
        (let kt = translate_param self k;
             self1 = (if kt \<in> set (derived_extra_names self) then self
                      else self\<lparr>derived_extra_names := derived_extra_names self @ [kt]\<rparr>)
         in (None, if k = ''sigma8''
                   then (set_attr_flag ''WantTransfer'' self1)\<lparr>needs_perts := True\<rparr>
                   else self1))
      else (Some (LoggedError ''This should not be happening. Contact the developers.''), self))"

fun needs_loop :: "('cp, 'r) solver \<Rightarrow> requirement dict \<Rightarrow> ('cp, 'r) camb
    \<Rightarrow> error option \<times> ('cp, 'r) camb" where
  "needs_loop sv [] self = (None, self)"
| "needs_loop sv ((k, v) # rest) self =
     (case needs_one sv k v self of
        (Some e, s) \<Rightarrow> (Some e, s)
      | (None, s) \<Rightarrow> needs_loop sv rest s)"

definition nonlinear_attr :: "bool \<Rightarrow> bool \<Rightarrow> attrval" where
  "nonlinear_attr lens pk =
     (if lens \<and> pk then ANonLinear NonLinear_both
      else if lens then ANonLinear NonLinear_lens
      else if pk then ANonLinear NonLinear_pk
      else AFlag False)"

definition needs :: "('cp, 'r) solver \<Rightarrow> requirement dict \<Rightarrow> ('cp, 'r) camb
    \<Rightarrow> error option \<times> ('cp, 'r) camb" where
  "needs sv requirements self =
     (case cosmo_needs requirements self of
        (Some e, s0) \<Rightarrow> (Some e, s0)
      | (None, s0) \<Rightarrow>
          (case needs_loop sv (needs_acc s0) s0 of
             (Some e, s1) \<Rightarrow> (Some e, s1)
           | (None, s1) \<Rightarrow>
               (if set (input_params s1) \<inter> fst ` set (extra_args s1) \<noteq> {}
                then (Some (LoggedError ''parameters appear both as input parameters and as CAMB extra arguments''), s1)
                else
                 (let s2 = (if map_of (extra_attrs s1) ''WantCls'' = Some (AFlag True) then s1
                            else s1\<lparr>extra_args :=
                                   foldl (\<lambda>acc p. AList.delete p acc) (extra_args s1) (lmax_params sv)\<rparr>)
                  in (None, s2\<lparr>extra_attrs :=
                               AList.update ''NonLinear''
                                 (nonlinear_attr (non_linear_lens s2) (non_linear_pk s2))
                                 (extra_attrs s2),
                             base_params := None\<rparr>)))))"

section \<open>Quantity accessors\<close>

definition alloc :: "ndarray \<Rightarrow> ('cp, 'r) camb \<Rightarrow> ref \<times> ('cp, 'r) camb" where
  "alloc a self = (length (heap self), self\<lparr>heap := heap self @ [a]\<rparr>)"

fun alloc_all :: "('k \<times> ndarray) list \<Rightarrow> ('k \<times> ref) list \<Rightarrow> ('cp, 'r) camb
    \<Rightarrow> ('k \<times> ref) list \<times> ('cp, 'r) camb" where
  "alloc_all [] acc self = (acc, self)"
| "alloc_all ((k, a) # rest) acc self =
     alloc_all rest (acc @ [(k, fst (alloc a self))]) (snd (alloc a self))"

definition deref :: "('cp, 'r) camb \<Rightarrow> ref \<Rightarrow> ndarray option" where
  "deref self r = (if r < length (heap self) then Some (heap self ! r) else None)"

subsection \<open>\<open>get_Cl\<close>\<close>

text \<open>\<open>a[:, i]\<close> on a 2-d array given by its rows.\<close>

definition column :: "nat \<Rightarrow> real list list \<Rightarrow> error + real list" where
  "column i rows = (if list_all (\<lambda>r. i < length r) rows then Inr (map (\<lambda>r. r ! i) rows)
                    else Inl IndexError)"

text \<open>\<open>((ell + 1) * ell / (2 * pi))[2:]\<close> for \<open>ell = arange(n)\<close>.\<close>

definition ell_weights :: "nat \<Rightarrow> real list" where
  "ell_weights n = map (\<lambda>l. (real l + 1) * real l / (2 * pi)) [2..<n]"

text \<open>
  The variable \<open>ell_factor\<close> after its reassignment: the integer 1, or the array of
  weights. \<open>ell_factor is not 1\<close> holds exactly for the array.
\<close>

datatype factor = One | Weights "real list"

text \<open>\<open>c * ell_factor\<close> as an array: a scalar is an array of one element.\<close>

definition factor_times :: "real \<Rightarrow> factor \<Rightarrow> real list" where
  "factor_times c f = (case f of One \<Rightarrow> [c * 1] | Weights w \<Rightarrow> map (\<lambda>e. c * e) w)"

text \<open>
  \<open>a[2:] *= f\<close> for a 1-d array \<open>a\<close>: \<open>f\<close> is broadcast to the shape of \<open>a[2:]\<close>, which
  numpy allows when the lengths agree or \<open>f\<close> has one element.
\<close>

definition imul_from2 :: "real list \<Rightarrow> real list \<Rightarrow> error + real list" where
  "imul_from2 a f =
     (if length f = length (drop 2 a) then Inr (take 2 a @ map2 (*) (drop 2 a) f)
      else if length f = 1 then Inr (take 2 a @ map (\<lambda>x. x * hd f) (drop 2 a))
      else Inl ValueError)"

fun imul_all :: "real list \<Rightarrow> (string \<times> real list) list \<Rightarrow> error + (string \<times> real list) list" where
  "imul_all f [] = Inr []"
| "imul_all f ((sp, a) # rest) =
     (case imul_from2 a f of
        Inl e \<Rightarrow> Inl e
      | Inr a' \<Rightarrow> (case imul_all f rest of Inl e \<Rightarrow> Inl e | Inr rest' \<Rightarrow> Inr ((sp, a') # rest')))"

definition units_factors :: "real dict" where
  "units_factors = [(''1'', 1), (''muK2'', T_CMB_K * 1000000), (''K2'', T_CMB_K)]"

text \<open>
  The body of \<open>get_Cl\<close> on the copied arrays: \<open>cl_camb\<close> is the copy of
  \<open>current_state["Cl"]["total"]\<close>, \<open>lens\<close> that of \<open>["lens_potential"]\<close> when the key
  is there. The result lists \<open>ell\<close>, the four columns and, last, \<open>pp\<close>.
\<close>

definition cl_dict :: "bool \<Rightarrow> string \<Rightarrow> real list list \<Rightarrow> real list list option
    \<Rightarrow> error + (string \<times> real list) list" where
  "cl_dict ell_factor units cl_camb lens =
     (let ell = map real [0..<length cl_camb]
      in case (column 0 cl_camb, column 1 cl_camb, column 2 cl_camb, column 3 cl_camb) of
           (Inr tt, Inr ee, Inr bb, Inr te) \<Rightarrow>
             (case (case lens of None \<Rightarrow> Inr None
                    | Some l \<Rightarrow> (case column 0 l of Inl e \<Rightarrow> Inl e | Inr c \<Rightarrow> Inr (Some c))) of
                Inl e \<Rightarrow> Inl e
              | Inr pp \<Rightarrow>
                  (let ef = (if ell_factor then Weights (ell_weights (length cl_camb)) else One)
                   in case map_of units_factors units of
                        None \<Rightarrow> Inl (LoggedError ''Units not recognized.'')
                      | Some units_factor \<Rightarrow>
                          (case imul_all (factor_times (units_factor ^ 2) ef)
                                  [(''tt'', tt), (''ee'', ee), (''bb'', bb), (''te'', te)] of
                             Inl e \<Rightarrow> Inl e
                           | Inr scaled \<Rightarrow>
                               (case pp of
                                  None \<Rightarrow> Inr ((''ell'', ell) # scaled)
                                | Some p \<Rightarrow>
                                    (case ef of
                                       One \<Rightarrow> Inr ((''ell'', ell) # scaled @ [(''pp'', p)])
                                     | Weights w \<Rightarrow>
                                         (case imul_from2 p (map (\<lambda>e. e ^ 2 * (2 * pi)) w) of
                                            Inl e \<Rightarrow> Inl e
                                          | Inr p' \<Rightarrow>
                                              Inr ((''ell'', ell) # scaled @ [(''pp'', p')])))))))
         | _ \<Rightarrow> Inl IndexError)"

text \<open>
  Reading \<open>current_state["Cl"]\<close>: any failure of \<open>deepcopy(current_state["Cl"]["total"])\<close>
  is caught by the bare \<open>except\<close>.
\<close>

definition stored_2d :: "('cp, 'r) camb \<Rightarrow> (string \<times> ref) list \<Rightarrow> string \<Rightarrow> real list list option" where
  "stored_2d self d name =
     (case map_of d name of
        None \<Rightarrow> None
      | Some r \<Rightarrow> (case deref self r of Some (Arr2 rows) \<Rightarrow> Some rows | _ \<Rightarrow> None))"

definition get_Cl :: "bool \<Rightarrow> string \<Rightarrow> ('cp, 'r) camb
    \<Rightarrow> (error + (string \<times> ref) list) \<times> ('cp, 'r) camb" where
  "get_Cl ell_factor units self =
     (case current_state self of
        Inl e \<Rightarrow> (Inl e, self)
      | Inr i \<Rightarrow>
          (case products (states self ! i) (Name ''Cl'') of
             Some (PDict d) \<Rightarrow>
               (case stored_2d self d ''total'' of
                  None \<Rightarrow> (Inl (LoggedError ''No Cl's were computed.''), self)
                | Some cl_camb \<Rightarrow>
                    (if ''lens_potential'' \<in> fst ` set d \<and> stored_2d self d ''lens_potential'' = None
                     then (Inl IndexError, self)
                     else (case cl_dict ell_factor units cl_camb (stored_2d self d ''lens_potential'') of
                             Inl e \<Rightarrow> (Inl e, self)
                           | Inr cls \<Rightarrow>
                               (case alloc_all (map (\<lambda>kv. (fst kv, Arr1 (snd kv))) cls) [] self of
                                  (refs, self') \<Rightarrow> (Inr refs, self')))))
           | _ \<Rightarrow> (Inl (LoggedError ''No Cl's were computed.''), self)))"

subsection \<open>Quantities indexed by redshift\<close>

text \<open>
  \<open>np.searchsorted(a, v)\<close> (side \<open>left\<close>) for an ascending array: the number of
  elements below \<open>v\<close>. \<open>np.where(a == v)[0]\<close>: the positions of \<open>v\<close>. \<open>arr[idx]\<close> with
  an index array copies the selected elements and raises \<open>IndexError\<close> out of range.
\<close>

definition searchsorted :: "real list \<Rightarrow> real \<Rightarrow> nat" where
  "searchsorted a v = length (takeWhile (\<lambda>x. x < v) a)"

definition np_where_eq :: "real list \<Rightarrow> real \<Rightarrow> nat list" where
  "np_where_eq a v = filter (\<lambda>i. a ! i = v) [0..<length a]"

definition take_indices :: "real list \<Rightarrow> nat list \<Rightarrow> error + real list" where
  "take_indices arr idx = (if list_all (\<lambda>i. i < length arr) idx then Inr (map (\<lambda>i. arr ! i) idx)
                           else Inl IndexError)"

definition z_indices :: "string \<Rightarrow> real list \<Rightarrow> ('cp, 'r) camb \<Rightarrow> error + nat list" where
  "z_indices quantity z self =
     (if quantity = ''fsigma8''
      then (case map_of (extra_args self) ''redshifts'' of
              None \<Rightarrow> Inl KeyError
            | Some (Arr computed) \<Rightarrow>
                (if z = [] then Inl ValueError
                 else Inr (concat (map (np_where_eq computed) z)))
            | Some other \<Rightarrow> Inl TypeError)
      else (case map_of (collectors self) (Name quantity) of
              None \<Rightarrow> Inl KeyError
            | Some None \<Rightarrow> Inl AttributeError
            | Some (Some c) \<Rightarrow>
                (case map_of (kwargs c) ''z'' of
                   Some (KwZ computed) \<Rightarrow> Inr (map (searchsorted computed) z)
                 | _ \<Rightarrow> Inl KeyError)))"

text \<open>\<open>_get_z_dependent\<close>, by value: the selected entries of the stored array.\<close>

definition z_dependent_values :: "string \<Rightarrow> real list \<Rightarrow> ('cp, 'r) camb \<Rightarrow> error + real list" where
  "z_dependent_values quantity z self =
     (case z_indices quantity z self of
        Inl e \<Rightarrow> Inl e
      | Inr idx \<Rightarrow>
          (case current_state self of
             Inl e \<Rightarrow> Inl e
           | Inr i \<Rightarrow>
               (case products (states self ! i) (Name quantity) of
                  Some (PArr r) \<Rightarrow>
                    (case deref self r of
                       Some (Arr1 arr) \<Rightarrow> take_indices arr idx
                     | _ \<Rightarrow> Inl IndexError)
                | Some other \<Rightarrow> Inl IndexError
                | None \<Rightarrow> Inl KeyError)))"

definition get_z_dependent :: "string \<Rightarrow> real list \<Rightarrow> ('cp, 'r) camb
    \<Rightarrow> (error + ref) \<times> ('cp, 'r) camb" where
  "get_z_dependent quantity z self =
     (case z_dependent_values quantity z self of
        Inl e \<Rightarrow> (Inl e, self)
      | Inr vals \<Rightarrow> (case alloc (Arr1 vals) self of (r, self') \<Rightarrow> (Inr r, self')))"

definition get_H :: "real list \<Rightarrow> string \<Rightarrow> ('cp, 'r) camb \<Rightarrow> (error + ref) \<times> ('cp, 'r) camb" where
  "get_H z units self =
     (case z_dependent_values ''H'' z self of
        Inl e \<Rightarrow> (if e = KeyError then (Inl (LoggedError ''Units not known for H''), self)
                  else (Inl e, self))
      | Inr vals \<Rightarrow>
          (case H_units_conv_factor self of
             None \<Rightarrow> (Inl AttributeError, snd (alloc (Arr1 vals) self))
           | Some conv \<Rightarrow>
               (case map_of conv units of
                  None \<Rightarrow> (Inl (LoggedError ''Units not known for H''), snd (alloc (Arr1 vals) self))
                | Some c \<Rightarrow>
                    (case alloc (Arr1 (map (\<lambda>x. x * c) vals)) (snd (alloc (Arr1 vals) self)) of
                       (r, self') \<Rightarrow> (Inr r, self')))))"

definition get_angular_diameter_distance :: "real list \<Rightarrow> ('cp, 'r) camb
    \<Rightarrow> (error + ref) \<times> ('cp, 'r) camb" where
  "get_angular_diameter_distance z self = get_z_dependent ''angular_diameter_distance'' z self"

definition get_comoving_radial_distance :: "real list \<Rightarrow> ('cp, 'r) camb
    \<Rightarrow> (error + ref) \<times> ('cp, 'r) camb" where
  "get_comoving_radial_distance z self = get_z_dependent ''comoving_radial_distance'' z self"

definition get_fsigma8 :: "real list \<Rightarrow> ('cp, 'r) camb \<Rightarrow> (error + ref) \<times> ('cp, 'r) camb" where
  "get_fsigma8 z self = get_z_dependent ''fsigma8'' z self"

subsection \<open>Matter power\<close>

text \<open>
  \<open>get_matter_power\<close> returns the stored tuple itself: the references of the arrays
  \<open>k\<close>, \<open>z\<close>, \<open>PK\<close> that the slot holds. \<open>_state\<close> is a slot index, or \<open>None\<close>.
\<close>

definition get_matter_power :: "string \<times> string \<Rightarrow> bool \<Rightarrow> nat option \<Rightarrow> ('cp, 'r) camb
    \<Rightarrow> error + 'r product" where
  "get_matter_power var_pair nonlinear st self =
     (if nonlinear \<and> \<not> non_linear_pk self then Inl ValueError
      else (case (case st of Some i \<Rightarrow> Inr i | None \<Rightarrow> current_state self) of
              Inl e \<Rightarrow> Inl e
            | Inr i \<Rightarrow>
                (case products (states self ! i)
                        (MatterPower nonlinear (fst var_pair) (snd var_pair)) of
                   None \<Rightarrow> Inl ValueError
                 | Some p \<Rightarrow> Inr p)))"

text \<open>
  \<open>get_Pk_interpolator\<close> keeps the interpolator it builds in the current slot, under
  its own key. The comparison \<open>extrap_kmax > k[-1]\<close> with \<open>extrap_kmax = None\<close> is a
  \<open>TypeError\<close> (Python 3).
\<close>

definition get_Pk_interpolator :: "string \<times> string \<Rightarrow> bool \<Rightarrow> real option \<Rightarrow> ('cp, 'r) camb
    \<Rightarrow> (error + 'r product) \<times> ('cp, 'r) camb" where
  "get_Pk_interpolator var_pair nonlinear extrap_kmax self =
     (case current_state self of
        Inl e \<Rightarrow> (Inl e, self)
      | Inr i \<Rightarrow>
          (let key = PkInterp nonlinear extrap_kmax (fst var_pair) (snd var_pair)
           in case products (states self ! i) key of
                Some p \<Rightarrow> (Inr p, self)
              | None \<Rightarrow>
                  (case get_matter_power var_pair nonlinear (Some i) self of
                     Inl e \<Rightarrow> (Inl e, self)
                   | Inr (PTuple [rk, rz, rpk]) \<Rightarrow>
                       (case (deref self rk, deref self rz, deref self rpk) of
                          (Some (Arr1 k), Some (Arr1 z), Some (Arr2 pk)) \<Rightarrow>
                            (let log_p = list_all (list_all (\<lambda>x. 0 < x)) pk
                             in if \<not> log_p \<and> extrap_kmax = None then (Inl TypeError, self)
                                else if \<not> log_p \<and> k = [] then (Inl IndexError, self)
                                else if \<not> log_p \<and> last k < the extrap_kmax then (Inl ValueError, self)
                                else
                                 (let result = PInterp (PowerSpectrumInterpolator z k
                                        (if log_p then map (map ln) pk else pk) log_p extrap_kmax)
                                  in (Inr result, put_product i key result self)))
                        | _ \<Rightarrow> (Inl TypeError, self))
                   | Inr other \<Rightarrow> (Inl ValueError, self))))"

subsection \<open>Source spectra\<close>

text \<open>
  The labels of \<open>get_source_cls_dict\<close> (\<open>"W1xW2"\<close>, \<open>"PxW1"\<close>) are split at \<open>x\<close>, stripped
  of \<open>W\<close> on both sides and read as \<open>P\<close> or as the 1-based position of a source name.
\<close>

fun split_x :: "string \<Rightarrow> string \<Rightarrow> string list" where
  "split_x cur [] = [cur]"
| "split_x cur (c # cs) = (if c = CHR ''x'' then cur # split_x [] cs else split_x (cur @ [c]) cs)"

definition strip_W :: "string \<Rightarrow> string" where
  "strip_W s = rev (dropWhile (\<lambda>c. c = CHR ''W'') (rev (dropWhile (\<lambda>c. c = CHR ''W'') s)))"

definition digit_val :: "char \<Rightarrow> nat option" where
  "digit_val c = (let n = (of_char c :: nat) in if 48 \<le> n \<and> n \<le> 57 then Some (n - 48) else None)"

fun py_nat :: "nat \<Rightarrow> string \<Rightarrow> nat option" where
  "py_nat acc [] = Some acc"
| "py_nat acc (c # cs) = (case digit_val c of None \<Rightarrow> None | Some d \<Rightarrow> py_nat (10 * acc + d) cs)"

text \<open>\<open>int(x)\<close> for an optional sign and decimal digits.\<close>

definition py_int :: "string \<Rightarrow> error + int" where
  "py_int s =
     (case s of
        [] \<Rightarrow> Inl ValueError
      | c # cs \<Rightarrow>
          (if (c = CHR ''-'' \<or> c = CHR ''+'') \<and> cs \<noteq> []
           then (case py_nat 0 cs of None \<Rightarrow> Inl ValueError
                 | Some n \<Rightarrow> Inr (if c = CHR ''-'' then - int n else int n))
           else (case py_nat 0 s of None \<Rightarrow> Inl ValueError | Some n \<Rightarrow> Inr (int n))))"

text \<open>\<open>xs[i]\<close> with Python's negative indices.\<close>

definition py_nth :: "'a list \<Rightarrow> int \<Rightarrow> error + 'a" where
  "py_nth xs i =
     (let n = int (length xs); j = (if i < 0 then n + i else i)
      in if 0 \<le> j \<and> j < n then Inr (xs ! nat j) else Inl IndexError)"

definition source_name :: "string list \<Rightarrow> string \<Rightarrow> error + string" where
  "source_name names x =
     (if x = ''P'' then Inr x
      else (case py_int x of Inl e \<Rightarrow> Inl e | Inr n \<Rightarrow> py_nth names (n - 1)))"

fun term_tuple :: "string list \<Rightarrow> string list \<Rightarrow> error + string list" where
  "term_tuple names [] = Inr []"
| "term_tuple names (p # ps) =
     (case source_name names (strip_W p) of
        Inl e \<Rightarrow> Inl e
      | Inr n \<Rightarrow> (case term_tuple names ps of Inl e \<Rightarrow> Inl e | Inr ns \<Rightarrow> Inr (n # ns)))"

fun source_terms :: "string list \<Rightarrow> (string \<times> 'a) list \<Rightarrow> (string list \<times> 'a) list
    \<Rightarrow> error + (string list \<times> 'a) list" where
  "source_terms names [] acc = Inr acc"
| "source_terms names ((t, cl) # rest) acc =
     (case term_tuple names (split_x [] t) of
        Inl e \<Rightarrow> Inl e
      | Inr tt \<Rightarrow> source_terms names rest (AList.update tt cl acc))"

fun deref_all :: "('cp, 'r) camb \<Rightarrow> ('k \<times> ref) list \<Rightarrow> ('k \<times> ndarray) list option" where
  "deref_all self [] = Some []"
| "deref_all self ((k, r) # rest) =
     (case deref self r of
        None \<Rightarrow> None
      | Some a \<Rightarrow> (case deref_all self rest of None \<Rightarrow> None | Some others \<Rightarrow> Some ((k, a) # others)))"

definition array_rows :: "ndarray \<Rightarrow> nat" where
  "array_rows a = (case a of Arr1 xs \<Rightarrow> length xs | Arr2 rows \<Rightarrow> length rows)"

text \<open>
  The result of \<open>get_source_Cl\<close>: the dictionary keyed by name tuples, with the key
  \<open>"ell"\<close> (here \<open>[''ell'']\<close>) added last.
\<close>

definition get_source_Cl :: "('cp, 'r) camb
    \<Rightarrow> (error + (string list \<times> ref) list) \<times> ('cp, 'r) camb" where
  "get_source_Cl self =
     (case current_state self of
        Inl e \<Rightarrow> (Inl e, self)
      | Inr i \<Rightarrow>
          (case products (states self ! i) (Name ''source_Cl'') of
             Some (PDict d) \<Rightarrow>
               (case deref_all self d of
                  None \<Rightarrow> (Inl (LoggedError ''No source Cl's were computed.''), self)
                | Some cls \<Rightarrow>
                    (case alloc_all cls [] self of
                       (copies, self1) \<Rightarrow>
                         (case source_terms
                                 (case sources self1 of None \<Rightarrow> [] | Some srcs \<Rightarrow> map fst srcs)
                                 copies [] of
                            Inl e \<Rightarrow> (Inl e, self1)
                          | Inr terms \<Rightarrow>
                              (case cls of
                                 [] \<Rightarrow> (Inl IndexError, self1)
                               | first # others \<Rightarrow>
                                   (case alloc (Arr1 (map real [0..<array_rows (snd first)])) self1 of
                                      (ell, self2) \<Rightarrow>
                                        (Inr (AList.update [''ell''] ell terms), self2))))))
           | _ \<Rightarrow> (Inl (LoggedError ''No source Cl's were computed.''), self)))"

definition get_CAMBdata :: "('cp, 'r) camb \<Rightarrow> error + 'r product" where
  "get_CAMBdata self =
     (case current_state self of
        Inl e \<Rightarrow> Inl e
      | Inr i \<Rightarrow> (case products (states self ! i) (Name ''CAMBdata'') of
                    None \<Rightarrow> Inl KeyError
                  | Some p \<Rightarrow> Inr p))"

section \<open>Invariants of the proofs and example inputs\<close>

text \<open>
  \<open>collect_step i ks s s'\<close>: from \<open>s\<close> to \<open>s'\<close> only slot \<open>i\<close> changed, and only by
  gaining results under keys of \<open>ks\<close>.
\<close>

definition collect_step :: "nat \<Rightarrow> key set \<Rightarrow> ('cp, 'r) camb \<Rightarrow> ('cp, 'r) camb \<Rightarrow> bool" where
  "collect_step i ks s s' \<longleftrightarrow>
     collectors s' = collectors s \<and> solver_calls s' = solver_calls s
     \<and> length (states s') = length (states s)
     \<and> (\<forall>j. j \<noteq> i \<longrightarrow> states s' ! j = states s ! j)
     \<and> params (states s' ! i) = params (states s ! i)
     \<and> last_st (states s' ! i) = last_st (states s ! i)
     \<and> derived (states s' ! i) = derived (states s ! i)
     \<and> dom (products (states s ! i)) \<subseteq> dom (products (states s' ! i))
     \<and> dom (products (states s' ! i)) \<subseteq> dom (products (states s ! i)) \<union> ks"

text \<open>
  \<open>slot_step i p s s'\<close>: from \<open>s\<close> to \<open>s'\<close> the collectors and all slots but \<open>i\<close> are
  unchanged; slot \<open>i\<close> holds the parameters \<open>p\<close>, keeps its \<open>last\<close>, and its results have
  grown by keys of registered collectors only.
\<close>

definition slot_step :: "nat \<Rightarrow> real dict option \<Rightarrow> ('cp, 'r) camb \<Rightarrow> ('cp, 'r) camb \<Rightarrow> bool" where
  "slot_step i p s s' \<longleftrightarrow>
     collectors s' = collectors s \<and> length (states s') = length (states s)
     \<and> (\<forall>j. j \<noteq> i \<longrightarrow> states s' ! j = states s ! j)
     \<and> params (states s' ! i) = p
     \<and> last_st (states s' ! i) = last_st (states s ! i)
     \<and> dom (products (states s ! i)) \<subseteq> dom (products (states s' ! i))
     \<and> dom (products (states s' ! i)) \<subseteq> dom (products (states s ! i)) \<union> fst ` set (collectors s)
     \<and> solver_calls s \<le> solver_calls s'"

text \<open>
  A small solver and a configured theory object, to run the model on: the solver accepts
  \<open>H0 \<le> 100\<close> and rejects larger values as out of range; its results depend on \<open>H0\<close>
  only.
\<close>

definition demo_solver :: "(real, real) solver" where
  "demo_solver =
     \<lparr>set_params = (\<lambda>b a. case map_of a ''H0'' of
                          Some (Num h) \<Rightarrow> if 100 < h then Inl CAMBParamRangeError else Inr h
                        | _ \<Rightarrow> Inl CAMBUnknownArgumentError),
      fixed_params = [''lmax'', ''kmax'', ''redshifts''],
      lmax_params = [''lmax''],
      has_attr = (\<lambda>a. True),
      set_attr = (\<lambda>p a v. p),
      set_source_windows = (\<lambda>p ws l. p),
      get_results = Inr,
      get_background = Inr,
      run_method = (\<lambda>m r a kw.
         if m = Get_cmb_power_spectra
         then Inr (VDict [(''total'', Arr2 [[r, r, r, r], [r, r, r, r], [r, r, r, r]]),
                          (''lens_potential'', Arr2 [[r], [r], [r]])])
         else if m = Get_linear_matter_power_spectrum
         then Inr (VTuple [Arr1 [1], Arr1 [0], Arr2 [[r]]])
         else if m = Get_source_cls_dict then Inr (VDict [(''W1xW1'', Arr1 [r, r])])
         else if m = Get_fsigma8 then Inr (VArr (Arr1 [r, r + 1]))
         else Inr (VArr (Arr1 (case map_of kw ''z'' of
                                 Some (KwZ zs) \<Rightarrow> map (\<lambda>z. r * (1 + z)) zs
                               | _ \<Rightarrow> [r])))),
      get_derived_params = (\<lambda>r. [(''age'', r / 5)]),
      get_sigma8 = (\<lambda>r. [r]),
      lookup_attr = (\<lambda>p r n. None),
      getter = (\<lambda>p n. None),
      version_ok = True\<rparr>"

definition demo_config :: "(real, real) camb" where
  "demo_config =
     \<lparr>states = [], collectors = [], extra_args = [], extra_attrs = [],
      input_params = [''H0''], output_params = [''age''], planck_to_camb = [],
      use_planck_names = False, stop_at_error = False, derived_extra_names = [],
      needs_perts = False, limber = False, non_linear_lens = False, non_linear_pk = False,
      base_params = None, reduced_extra_args = [], sources = None,
      H_units_conv_factor = None, needs_acc = [], heap = [], solver_calls = 0\<rparr>"

text \<open>The object after \<open>initialize\<close>, and after declaring \<open>H\<close> at two redshifts.\<close>

definition demo_fresh :: "(real, real) camb" where
  "demo_fresh = demo_config\<lparr>states := [empty_slot, empty_slot, empty_slot],
     extra_attrs := [(''Want_CMB'', AFlag False), (''Want_cl_2D_array'', AFlag False),
                     (''WantCls'', AFlag False)]\<rparr>"

definition demo_H :: "(real, real) camb" where
  "demo_H = demo_fresh\<lparr>collectors := [(Name ''H'', Some (z_collector H_of_z [1/2, 1]))],
     extra_attrs := [(''Want_CMB'', AFlag False), (''Want_cl_2D_array'', AFlag False),
                     (''WantCls'', AFlag False), (''NonLinear'', AFlag False)],
     H_units_conv_factor := Some [(''1/Mpc'', 1), (''km/s/Mpc'', c_km_s)],
     needs_acc := [(''H'', ReqZ [1, 1/2])]\<rparr>"

definition pA :: "real dict" where "pA = [(''H0'', 70)]"

definition pB :: "real dict" where "pB = [(''H0'', 71)]"

text \<open>The object after declaring \<open>Cl\<close> with \<open>tt\<close> and \<open>pp\<close>.\<close>

definition demo_Cl :: "(real, real) camb" where
  "demo_Cl = demo_fresh\<lparr>collectors := [(Name ''Cl'',
        Some \<lparr>cmethod = Some Get_cmb_power_spectra, cargs = [],
              kwargs = [(''spectra'', KwSpectra [''total'', ''lens_potential'']),
                        (''raw_cl'', KwFlag True)]\<rparr>)],
     extra_args := [(''lmax'', Num 1000)],
     extra_attrs := [(''Want_CMB'', AFlag True), (''Want_cl_2D_array'', AFlag False),
                     (''WantCls'', AFlag True), (''NonLinear'', ANonLinear NonLinear_lens)],
     needs_perts := True, non_linear_lens := True,
     needs_acc := [(''Cl'', ReqCl [(''tt'', 1000), (''pp'', 500)])]\<rparr>"

text \<open>
  The invariant of the pool under cached evaluations: no two slots hold equal
  parameters, and a slot that holds parameters but lacks a result for some collector is
  the one that the next miss overwrites.
\<close>

definition no_duplicates :: "('cp, 'r) camb \<Rightarrow> bool" where
  "no_duplicates s \<longleftrightarrow>
     (\<forall>i<length (states s). \<forall>j<length (states s). i \<noteq> j \<longrightarrow>
        (\<forall>p. params (states s ! i) = Some p \<longrightarrow> \<not> holds p (states s ! j)))"

definition incomplete_is_oldest :: "('cp, 'r) camb \<Rightarrow> bool" where
  "incomplete_is_oldest s \<longleftrightarrow>
     (\<forall>i<length (states s).
        params (states s ! i) \<noteq> None \<and> \<not> has_all_products (collectors s) (states s ! i)
        \<longrightarrow> index_of (Min (set (lasts_of s))) (lasts_of s) = Some i)"

text \<open>The states reached from \<open>s0\<close> by calls of \<open>compute\<close> with \<open>cached=True\<close>.\<close>

inductive cached_run :: "('cp, 'r) solver \<Rightarrow> ('cp, 'r) camb \<Rightarrow> ('cp, 'r) camb \<Rightarrow> bool"
  for sv :: "('cp, 'r) solver" and s0 :: "('cp, 'r) camb" where
  start: "cached_run sv s0 s0"
| step: "cached_run sv s0 s \<Longrightarrow> compute sv dv True pvd s = (out, s') \<Longrightarrow> cached_run sv s0 s'"

definition cache_inv :: "('cp, 'r) camb \<Rightarrow> bool" where
  "cache_inv s \<longleftrightarrow> no_duplicates s \<and> incomplete_is_oldest s"

text \<open>
  A run with a fresh computation (\<open>H0 = 70\<close>) and a zero-result (\<open>H0 = 200\<close>): slots 0 and
  1 then hold these two parameter sets.
\<close>

definition pBad :: "real dict" where
  "pBad = [(''H0'', 200)]"

section \<open>Lists and indices\<close>

lemma index_of_SomeD:
  "index_of x xs = Some i \<Longrightarrow> i < length xs \<and> xs ! i = x \<and> (\<forall>j<i. xs ! j \<noteq> x)"
proof (induction xs arbitrary: i)
  case Nil
  then show ?case by simp
next
  case (Cons y ys)
  show ?case
  proof (cases "y = x")
    case True
    with Cons.prems show ?thesis by simp
  next
    case False
    with Cons.prems obtain k where k: "index_of x ys = Some k" "i = Suc k" by auto
    from Cons.IH [OF k(1)] False k(2) show ?thesis
      by (auto simp: nth_Cons split: nat.splits)
  qed
qed

lemma index_of_mem: "x \<in> set xs \<Longrightarrow> \<exists>i. index_of x xs = Some i"
  by (induction xs) auto

lemma index_of_Min: "xs \<noteq> [] \<Longrightarrow> \<exists>i. index_of (Min (set xs)) xs = Some i"
  by (rule index_of_mem) simp

lemma first_index_SomeD:
  "first_index P xs = Some i \<Longrightarrow> i < length xs \<and> P (xs ! i) \<and> (\<forall>j<i. \<not> P (xs ! j))"
proof (induction xs arbitrary: i)
  case Nil
  then show ?case by simp
next
  case (Cons y ys)
  show ?case
  proof (cases "P y")
    case True
    with Cons.prems show ?thesis by simp
  next
    case False
    with Cons.prems obtain k where k: "first_index P ys = Some k" "i = Suc k" by auto
    from Cons.IH [OF k(1)] False k(2) show ?thesis
      by (auto simp: nth_Cons split: nat.splits)
  qed
qed

lemma first_index_None: "first_index P xs = None \<longleftrightarrow> (\<forall>x\<in>set xs. \<not> P x)"
  by (induction xs) auto

lemma first_index_unique:
  assumes "i < length xs" "P (xs ! i)" "\<forall>j<length xs. j \<noteq> i \<longrightarrow> \<not> P (xs ! j)"
  shows "first_index P xs = Some i"
proof (cases "first_index P xs")
  case None
  with assms(1,2) show ?thesis by (auto simp: first_index_None)
next
  case (Some k)
  from first_index_SomeD [OF Some] assms(3) have "k = i" by auto
  with Some show ?thesis by simp
qed

section \<open>What one evaluation changes\<close>

lemma camb_set_frame:
  assumes "camb_set sv pvd i s = (r, s')" and "i < length (states s)"
  shows "collectors s' = collectors s"
    and "heap s' = heap s"
    and "length (states s') = length (states s)"
    and "j \<noteq> i \<Longrightarrow> states s' ! j = states s ! j"
    and "params (states s' ! i) = Some pvd"
    and "products (states s' ! i) = products (states s ! i)"
    and "last_st (states s' ! i) = last_st (states s ! i)"
    and "derived (states s' ! i) = derived (states s ! i)"
    and "solver_calls s \<le> solver_calls s'"
  using assms
  by (auto simp: camb_set_def set_base_def set_sources_def upd_slot_def Let_def
      split: if_splits sum.splits prod.splits option.splits list.splits)

lemma put_product_fields [simp]:
  "collectors (put_product i k p s) = collectors s"
  "solver_calls (put_product i k p s) = solver_calls s"
  "heap (put_product i k p s) = heap s"
  "stop_at_error (put_product i k p s) = stop_at_error s"
  "length (states (put_product i k p s)) = length (states s)"
  "j \<noteq> i \<Longrightarrow> states (put_product i k p s) ! j = states s ! j"
  by (simp_all add: put_product_def upd_slot_def)

lemma put_product_slot [simp]:
  assumes "i < length (states s)"
  shows "states (put_product i k p s) ! i = (states s ! i)\<lparr>products := (products (states s ! i))(k \<mapsto> p)\<rparr>"
  using assms by (simp add: put_product_def upd_slot_def)

lemma collect_step_refl: "collect_step i ks s s"
  by (simp add: collect_step_def)

lemma collect_step_put:
  assumes "i < length (states s)" and "collect_step i ks (put_product i k p (s\<lparr>heap := h\<rparr>)) s'"
  shows "collect_step i (insert k ks) s s'
    \<and> k \<in> dom (products (states s' ! i))"
proof -
  let ?s1 = "put_product i k p (s\<lparr>heap := h\<rparr>)"
  have slot: "products (states ?s1 ! i) = (products (states s ! i))(k \<mapsto> p)"
    and flds: "params (states ?s1 ! i) = params (states s ! i)"
      "last_st (states ?s1 ! i) = last_st (states s ! i)"
      "derived (states ?s1 ! i) = derived (states s ! i)"
    using assms(1) by simp_all
  have other: "states ?s1 ! j = states s ! j" if "j \<noteq> i" for j
    using that by simp
  from assms(2) have lower: "dom (products (states ?s1 ! i)) \<subseteq> dom (products (states s' ! i))"
    and upper: "dom (products (states s' ! i)) \<subseteq> dom (products (states ?s1 ! i)) \<union> ks"
    by (simp_all add: collect_step_def)
  from slot have d: "dom (products (states ?s1 ! i)) = insert k (dom (products (states s ! i)))"
    by simp
  have "dom (products (states s ! i)) \<subseteq> dom (products (states s' ! i))"
    using lower d by blast
  moreover have "dom (products (states s' ! i)) \<subseteq> dom (products (states s ! i)) \<union> insert k ks"
    using upper d by blast
  moreover have "k \<in> dom (products (states s' ! i))" using lower d by blast
  ultimately show ?thesis using assms(2) flds other
    by (simp add: collect_step_def)
qed

lemma collect_step_mono: "collect_step i ks s s' \<Longrightarrow> ks \<subseteq> ks' \<Longrightarrow> collect_step i ks' s s'"
  unfolding collect_step_def by blast

lemma run_collectors_frame:
  assumes "run_collectors sv res i cs s = (r, s')" and "i < length (states s)"
  shows "collect_step i (fst ` set cs) s s'
    \<and> (r = Inr True \<longrightarrow> fst ` set cs \<subseteq> dom (products (states s' ! i)))"
  using assms
proof (induction cs arbitrary: s)
  case Nil
  then show ?case by (simp add: collect_step_refl)
next
  case (Cons kc cs)
  obtain product c where kc: "kc = (product, c)" by (cases kc)
  have same: "collect_step i (fst ` set (kc # cs)) s s \<and> r \<noteq> Inr True"
    if "s' = s" "r \<noteq> Inr True"
    using that by (simp add: collect_step_refl)
  have step: ?case
    if run: "run_collectors sv res i cs (put_product i product p (s\<lparr>heap := h\<rparr>)) = (r, s')"
    for p h
  proof -
    let ?s1 = "put_product i product p (s\<lparr>heap := h\<rparr>)"
    have len: "i < length (states ?s1)" using Cons.prems(2) by simp
    from Cons.IH [OF run len]
    have ih: "collect_step i (fst ` set cs) ?s1 s'"
      and all: "r = Inr True \<longrightarrow> fst ` set cs \<subseteq> dom (products (states s' ! i))"
      by simp_all
    from collect_step_put [OF Cons.prems(2) ih]
    have "collect_step i (insert product (fst ` set cs)) s s'"
      and "product \<in> dom (products (states s' ! i))" by simp_all
    with all kc show ?thesis by simp
  qed
  show ?case
  proof (cases c)
    case None
    with Cons.prems kc have "s' = s" "r \<noteq> Inr True" by auto
    then show ?thesis using same by simp
  next
    case (Some col)
    show ?thesis
    proof (cases "cmethod col")
      case None
      from Cons.prems kc Some None
      have "run_collectors sv res i cs (put_product i product (PData res) s) = (r, s')"
        by simp
      then have "run_collectors sv res i cs (put_product i product (PData res) (s\<lparr>heap := heap s\<rparr>)) = (r, s')"
        by simp
      then show ?thesis by (rule step)
    next
      case (Some m)
      note m = this
      show ?thesis
      proof (cases "run_method sv m res (cargs col) (kwargs col)")
        case (Inl u)
        with Cons.prems kc \<open>c = Some col\<close> m have "s' = s" "r \<noteq> Inr True"
          by (auto split: if_splits)
        then show ?thesis using same by simp
      next
        case (Inr v)
        with Cons.prems kc \<open>c = Some col\<close> m
        have "run_collectors sv res i cs
           (put_product i product (fst (store_value v (heap s)))
              (s\<lparr>heap := snd (store_value v (heap s))\<rparr>)) = (r, s')" by simp
        then show ?thesis by (rule step)
      qed
    qed
  qed
qed

lemma get_all_results_frame:
  assumes "get_all_results sv cp s = (r, s')"
  shows "states s' = states s" and "collectors s' = collectors s"
    and "solver_calls s \<le> solver_calls s'"
    and "r = Inr None \<Longrightarrow> collectors s = []"
  using assms by (auto simp: get_all_results_def split: if_splits sum.splits)

lemma store_derived_frame:
  assumes "store_derived sv dv cp res i s = (r, s')" and "i < length (states s)"
  shows "collectors s' = collectors s \<and> solver_calls s' = solver_calls s
    \<and> length (states s') = length (states s)
    \<and> (\<forall>j. j \<noteq> i \<longrightarrow> states s' ! j = states s ! j)
    \<and> params (states s' ! i) = params (states s ! i)
    \<and> last_st (states s' ! i) = last_st (states s ! i)
    \<and> products (states s' ! i) = products (states s ! i)"
  using assms
  by (auto simp: store_derived_def upd_slot_def split: if_splits sum.splits prod.splits)

lemma store_derived_result:
  assumes "store_derived sv (Some []) cp res i s = (Inr dv', s')" and "i < length (states s)"
  shows "derived (states s' ! i) = dv'"
  using assms
  by (auto simp: store_derived_def upd_slot_def split: if_splits sum.splits prod.splits)

lemma touch_length [simp]: "length (touch lasts i sts) = length sts"
  by (simp add: touch_def Let_def)

lemma touch_nth:
  assumes "j < length sts"
  shows "touch lasts i sts ! j =
     (sts ! j)\<lparr>last_st := (if j = i then 1 else last_st (sts ! j) - Max (set lasts))\<rparr>"
  using assms by (simp add: touch_def Let_def nth_list_update)

lemma update_fresh: "k \<notin> fst ` set al \<Longrightarrow> AList.update k v al = al @ [(k, v)]"
  by (induction al) auto

lemma dict_update_distinct:
  "distinct (map fst (acc @ d)) \<Longrightarrow> dict_update acc d = acc @ d"
proof (induction d arbitrary: acc)
  case Nil
  then show ?case by (simp add: dict_update_def)
next
  case (Cons kv d)
  from Cons.prems have fresh: "fst kv \<notin> fst ` set acc" by auto
  from Cons.prems have "distinct (map fst ((acc @ [kv]) @ d))" by simp
  from Cons.IH [OF this] have "dict_update (acc @ [kv]) d = (acc @ [kv]) @ d" .
  moreover have "dict_update acc (kv # d) = dict_update (AList.update (fst kv) (snd kv) acc) d"
    by (simp add: dict_update_def)
  ultimately show ?case using update_fresh [OF fresh, of "snd kv"] by simp
qed

lemma get_derived_all_distinct:
  "get_derived_all sv self cp res ps acc = Inr d \<Longrightarrow> distinct (map fst acc)
     \<Longrightarrow> distinct (map fst d)"
proof (induction ps arbitrary: acc)
  case Nil
  then show ?case by simp
next
  case (Cons p ps)
  from Cons.prems(1) obtain v where
    "get_derived_all sv self cp res ps (AList.update p v acc) = Inr d"
    by (auto split: sum.splits option.splits)
  moreover have "distinct (map fst (AList.update p v acc))"
    using Cons.prems(2) by (simp add: distinct_update)
  ultimately show ?case by (rule Cons.IH)
qed

lemma store_derived_distinct:
  assumes "store_derived sv (Some []) cp res i s = (Inr dv', s')"
  shows "\<exists>d. dv' = Some d \<and> distinct (map fst d)"
  using assms get_derived_all_distinct [of sv s cp res "output_params s" "[]"]
  by (auto simp: store_derived_def split: if_splits sum.splits prod.splits)

lemma slot_step_trans:
  assumes "slot_step i p s s1" and "slot_step i (params (states s1 ! i)) s1 s2"
  shows "slot_step i p s s2"
proof -
  from assms have l1: "dom (products (states s ! i)) \<subseteq> dom (products (states s1 ! i))"
    and l2: "dom (products (states s1 ! i)) \<subseteq> dom (products (states s2 ! i))"
    and u1: "dom (products (states s1 ! i))
       \<subseteq> dom (products (states s ! i)) \<union> fst ` set (collectors s)"
    and u2: "dom (products (states s2 ! i))
       \<subseteq> dom (products (states s1 ! i)) \<union> fst ` set (collectors s1)"
    and c: "collectors s1 = collectors s"
    by (simp_all add: slot_step_def)
  from l1 l2 have "dom (products (states s ! i)) \<subseteq> dom (products (states s2 ! i))"
    by (rule subset_trans)
  moreover from u2 c
  have "dom (products (states s2 ! i))
      \<subseteq> dom (products (states s1 ! i)) \<union> fst ` set (collectors s)" by simp
  then have "dom (products (states s2 ! i))
      \<subseteq> dom (products (states s ! i)) \<union> fst ` set (collectors s)"
    by (rule subset_trans [OF _ Un_least [OF u1 Un_upper2]])
  ultimately show ?thesis using assms by (simp add: slot_step_def)
qed

lemma slot_step_refl: "slot_step i (params (states s ! i)) s s"
  by (simp add: slot_step_def)

lemma camb_set_step:
  assumes "camb_set sv pvd i s = (r, s')" and "i < length (states s)"
  shows "slot_step i (Some pvd) s s'"
  unfolding slot_step_def using camb_set_frame [OF assms] by simp

lemma run_collectors_step:
  assumes "run_collectors sv res i (collectors s) s = (r, s')" and "i < length (states s)"
  shows "slot_step i (params (states s ! i)) s s'"
  using run_collectors_frame [OF assms] by (simp add: slot_step_def collect_step_def)

lemma store_derived_step:
  assumes "store_derived sv dv cp res i s = (r, s')" and "i < length (states s)"
  shows "slot_step i (params (states s ! i)) s s'"
  unfolding slot_step_def using store_derived_frame [OF assms] by simp

lemma get_all_results_step:
  assumes "get_all_results sv cp s = (r, s')"
  shows "slot_step i (params (states s ! i)) s s'"
  unfolding slot_step_def using get_all_results_frame [OF assms] by simp

text \<open>What a miss does to the pool, whatever its outcome.\<close>

lemma compute_miss_step:
  assumes run: "compute_miss sv dv pvd lasts s = ((r, dv'), s')"
    and i: "index_of (Min (set lasts)) lasts = Some i"
    and len: "i < length (states s)"
  shows "\<exists>t. slot_step i (Some pvd) s t \<and> collectors s' = collectors s
     \<and> solver_calls s' = solver_calls t \<and> r \<noteq> Inr 1
     \<and> (r = Inr 2 \<longrightarrow> states s' = touch lasts i (states t)
           \<and> has_all_products (collectors s) (states t ! i)
           \<and> (dv = Some [] \<longrightarrow> derived (states t ! i) = dv'
                 \<and> (\<exists>d. dv' = Some d \<and> distinct (map fst d))))
     \<and> (r \<noteq> Inr 2 \<longrightarrow> states s' = states t)"
proof -
  obtain r1 s1 where set: "camb_set sv pvd i s = (r1, s1)" by (cases "camb_set sv pvd i s")
  note st1 = camb_set_step [OF set len]
  have c1: "collectors s1 = collectors s" and l1: "i < length (states s1)"
    using st1 len by (auto simp: slot_step_def)
  show ?thesis
  proof (cases r1)
    case (Inl e)
    with run i set have "r = Inl e" "s' = s1" by (simp_all add: compute_miss_def)
    with st1 c1 show ?thesis by (intro exI [of _ s1]) simp
  next
    case (Inr ocp)
    show ?thesis
    proof (cases ocp)
      case None
      with run i set Inr have "r = Inr 0" "s' = s1" by (simp_all add: compute_miss_def)
      with st1 c1 show ?thesis by (intro exI [of _ s1]) simp
    next
      case (Some cp)
      obtain r2 s2 where gr: "get_all_results sv cp s1 = (r2, s2)"
        by (cases "get_all_results sv cp s1")
      note f2 = get_all_results_frame [OF gr]
      have st2: "slot_step i (Some pvd) s s2"
        by (rule slot_step_trans [OF st1 get_all_results_step [OF gr]])
      have l2: "i < length (states s2)" using f2 l1 by simp
      show ?thesis
      proof (cases r2)
        case (Inl e)
        with run i set Inr Some gr have "r = Inl e" "s' = s2" by (simp_all add: compute_miss_def)
        with st2 c1 f2(2) show ?thesis by (intro exI [of _ s2]) simp
      next
        case (Inr res)
        note res = this
        obtain r3 s3 where rc:
          "(case res of None \<Rightarrow> (Inr True, s2)
            | Some rr \<Rightarrow> run_collectors sv rr i (collectors s2) s2) = (r3, s3)"
          by (cases "case res of None \<Rightarrow> (Inr True, s2)
            | Some rr \<Rightarrow> run_collectors sv rr i (collectors s2) s2")
        have st23: "slot_step i (params (states s2 ! i)) s2 s3"
        proof (cases res)
          case None
          with rc have "s3 = s2" by simp
          then show ?thesis by (simp add: slot_step_refl)
        next
          case (Some rr)
          with rc have "run_collectors sv rr i (collectors s2) s2 = (r3, s3)" by simp
          then show ?thesis using l2 by (rule run_collectors_step)
        qed
        have all3: "r3 = Inr True \<longrightarrow> has_all_products (collectors s) (states s3 ! i)"
        proof (cases res)
          case None
          with f2(4) res c1 have "collectors s = []" by simp
          then show ?thesis by (simp add: has_all_products_def)
        next
          case (Some rr)
          with rc have "run_collectors sv rr i (collectors s2) s2 = (r3, s3)" by simp
          from run_collectors_frame [OF this l2] f2(2) c1 show ?thesis
            by (auto simp: has_all_products_def list_all_iff)
        qed
        have st3: "slot_step i (Some pvd) s s3"
          by (rule slot_step_trans [OF st2 st23])
        have l3: "i < length (states s3)" using st3 len by (simp add: slot_step_def)
        have c3: "collectors s3 = collectors s" using st3 by (simp add: slot_step_def)
        from run i set \<open>r1 = Inr ocp\<close> \<open>ocp = Some cp\<close> gr res rc
        have run3: "(case r3 of Inl e \<Rightarrow> ((Inl e, dv), s3)
           | Inr False \<Rightarrow> ((Inr 0, dv), s3)
           | Inr True \<Rightarrow>
              (case store_derived sv dv cp res i s3 of
                 (Inl e, s4) \<Rightarrow> ((Inl e, dv), s4)
               | (Inr dv', s4) \<Rightarrow> ((Inr 2, dv'), s4\<lparr>states := touch lasts i (states s4)\<rparr>)))
           = ((r, dv'), s')"
          by (simp add: compute_miss_def)
        show ?thesis
        proof (cases r3)
          case (Inl e)
          with run3 have "r = Inl e" "s' = s3" by simp_all
          with st3 c3 show ?thesis by (intro exI [of _ s3]) simp
        next
          case (Inr ok)
          show ?thesis
          proof (cases ok)
            case False
            with run3 Inr have "r = Inr 0" "s' = s3" by simp_all
            with st3 c3 show ?thesis by (intro exI [of _ s3]) simp
          next
            case True
            obtain r4 s4 where sd: "store_derived sv dv cp res i s3 = (r4, s4)"
              by (cases "store_derived sv dv cp res i s3")
            note f4 = store_derived_frame [OF sd l3]
            have st4: "slot_step i (Some pvd) s s4"
              by (rule slot_step_trans [OF st3 store_derived_step [OF sd l3]])
            have all4: "has_all_products (collectors s) (states s4 ! i)"
              using all3 Inr True f4 by (simp add: has_all_products_def)
            show ?thesis
            proof (cases r4)
              case (Inl e)
              with run3 \<open>r3 = Inr ok\<close> True sd have "r = Inl e" "s' = s4" by simp_all
              with st4 c3 f4 show ?thesis by (intro exI [of _ s4]) simp
            next
              case (Inr d4)
              with run3 \<open>r3 = Inr ok\<close> True sd
              have "r = Inr 2" "dv' = d4" "s' = s4\<lparr>states := touch lasts i (states s4)\<rparr>"
                by simp_all
              moreover have "dv = Some [] \<longrightarrow> derived (states s4 ! i) = d4
                  \<and> (\<exists>d. d4 = Some d \<and> distinct (map fst d))"
              proof
                assume "dv = Some []"
                with sd Inr have sd': "store_derived sv (Some []) cp res i s3 = (Inr d4, s4)"
                  by simp
                from store_derived_result [OF sd' l3] store_derived_distinct [OF sd']
                show "derived (states s4 ! i) = d4
                  \<and> (\<exists>d. d4 = Some d \<and> distinct (map fst d))" by simp
              qed
              ultimately show ?thesis using st4 f4 c3 all4 by (intro exI [of _ s4]) simp
            qed
          qed
        qed
      qed
    qed
  qed
qed

lemma lookup_SomeD:
  assumes "lookup cached pvd s = Some i"
  shows "cached" and "i < length (states s)" and "holds pvd (states s ! i)"
    and "\<forall>j<i. \<not> holds pvd (states s ! j)"
    and "has_all_products (collectors s) (states s ! i)"
  using assms first_index_SomeD [of "holds pvd" "states s"]
  by (auto simp: lookup_def split: if_splits option.splits)

lemma lookup_unique:
  assumes "i < length (states s)" and "holds pvd (states s ! i)"
    and "\<forall>j<length (states s). j \<noteq> i \<longrightarrow> \<not> holds pvd (states s ! j)"
    and "has_all_products (collectors s) (states s ! i)"
  shows "lookup True pvd s = Some i"
  using first_index_unique [of i "states s" "holds pvd"] assms by (simp add: lookup_def)

lemma lookup_not_held:
  assumes "\<forall>st\<in>set (states s). \<not> holds pvd st"
  shows "lookup cached pvd s = None"
  using assms first_index_None [of "holds pvd" "states s"] by (simp add: lookup_def)

lemma compute_hit_effect:
  assumes "lookup cached pvd s = Some i"
  shows "compute sv dv cached pvd s =
    ((Inr 1, if dv = Some []
        then Some (dict_update [] (case derived (states s ! i) of None \<Rightarrow> [] | Some d \<Rightarrow> d))
        else dv),
     s\<lparr>states := touch (lasts_of s) i (states s)\<rparr>)"
  using assms by (simp add: compute_def compute_hit_def)

lemma compute_miss_effect:
  assumes "lookup cached pvd s = None" and "compute sv dv cached pvd s = ((r, dv'), s')"
    and "states s \<noteq> []"
  shows "\<exists>i t. index_of (Min (set (lasts_of s))) (lasts_of s) = Some i \<and> i < length (states s)
     \<and> slot_step i (Some pvd) s t \<and> collectors s' = collectors s
     \<and> solver_calls s' = solver_calls t \<and> r \<noteq> Inr 1
     \<and> (r = Inr 2 \<longrightarrow> states s' = touch (lasts_of s) i (states t)
           \<and> has_all_products (collectors s) (states t ! i)
           \<and> (dv = Some [] \<longrightarrow> derived (states t ! i) = dv'
                 \<and> (\<exists>d. dv' = Some d \<and> distinct (map fst d))))
     \<and> (r \<noteq> Inr 2 \<longrightarrow> states s' = states t)"
proof -
  from assms(3) have "lasts_of s \<noteq> []" by (simp add: lasts_of_def)
  then obtain i where i: "index_of (Min (set (lasts_of s))) (lasts_of s) = Some i"
    using index_of_Min by blast
  with index_of_SomeD [OF i] have len: "i < length (states s)" by (simp add: lasts_of_def)
  from assms(1,2) have "compute_miss sv dv pvd (lasts_of s) s = ((r, dv'), s')"
    by (simp add: compute_def)
  from compute_miss_step [OF this i len] i len show ?thesis by blast
qed

text \<open>The slot that was touched last is never the one chosen for writing.\<close>

lemma oldest_not_newer:
  assumes "index_of (Min (set xs)) xs = Some i" and "k < length xs" and "xs ! k < xs ! j"
  shows "i \<noteq> j"
proof
  assume "i = j"
  with index_of_SomeD [OF assms(1)] have "xs ! j = Min (set xs)" by simp
  moreover have "Min (set xs) \<le> xs ! k" using assms(2) by simp
  ultimately show False using assms(3) by simp
qed

section \<open>Revisiting a parameter point\<close>

lemma holds_last [simp]: "holds p (st\<lparr>last_st := l\<rparr>) = holds p st"
  by (simp add: holds_def)

lemma has_all_products_last [simp]:
  "has_all_products cs (st\<lparr>last_st := l\<rparr>) = has_all_products cs st"
  by (simp add: has_all_products_def)

lemma dict_eq_sym: "dict_eq a b \<longleftrightarrow> dict_eq b a"
  by (auto simp: dict_eq_def)

lemma holds_other: "params st = Some b \<Longrightarrow> \<not> dict_eq a b \<Longrightarrow> \<not> holds a st"
  by (simp add: holds_def dict_eq_sym [of b a])

lemma lasts_of_nth: "j < length (states s) \<Longrightarrow> lasts_of s ! j = last_st (states s ! j)"
  by (simp add: lasts_of_def)

lemma last_le_Max: "j < length (states s) \<Longrightarrow> last_st (states s ! j) \<le> Max (set (lasts_of s))"
  by (simp add: lasts_of_def)

text \<open>
  Claim C3. Evaluate a parameter set \<open>A\<close> that no slot holds (a fresh computation, status
  2), then any other set \<open>B\<close>, whatever its outcome; with a pool of at least two slots
  (the code has three) and unchanged collectors, evaluating \<open>A\<close> again with caching
  enabled returns status 1, makes no call into the solver, and hands back the derived
  parameters that the first evaluation stored.
\<close>

theorem cache_hit_on_revisit:
  assumes new: "\<forall>st\<in>set (states s0). \<not> holds A st"
    and slots: "1 < length (states s0)"
    and first: "compute sv d1 c1 A s0 = ((Inr 2, d1'), s1)"
    and second: "compute sv d2 c2 B s1 = ((r2, d2'), s2)"
    and differ: "\<not> dict_eq A B"
  shows "fst (fst (compute sv d3 True A s2)) = Inr 1
    \<and> solver_calls (snd (compute sv d3 True A s2)) = solver_calls s2
    \<and> (d1 = Some [] \<longrightarrow> snd (fst (compute sv (Some []) True A s2)) = d1')"
proof -
  let ?n = "length (states s0)"
  from slots have ne0: "states s0 \<noteq> []" by auto
  from new have "lookup c1 A s0 = None" by (rule lookup_not_held)
  from compute_miss_effect [OF this first ne0] obtain i0 t0 where
    i0: "i0 < ?n" and st0: "slot_step i0 (Some A) s0 t0"
    and c1: "collectors s1 = collectors s0"
    and s1: "states s1 = touch (lasts_of s0) i0 (states t0)"
    and all0: "has_all_products (collectors s0) (states t0 ! i0)"
    and dv0: "d1 = Some [] \<longrightarrow> derived (states t0 ! i0) = d1'
       \<and> (\<exists>d. d1' = Some d \<and> distinct (map fst d))"
    by auto
  from st0 have lt0: "length (states t0) = ?n" by (simp add: slot_step_def)
  have len1: "length (states s1) = ?n" using s1 lt0 by simp
  have slot1: "states s1 ! i0 = (states t0 ! i0)\<lparr>last_st := 1\<rparr>"
    using s1 i0 lt0 by (simp add: touch_nth)
  have other1: "states s1 ! j = (states s0 ! j)\<lparr>last_st := last_st (states s0 ! j) - Max (set (lasts_of s0))\<rparr>"
    if "j < ?n" "j \<noteq> i0" for j
    using that s1 lt0 st0 by (simp add: touch_nth slot_step_def)
  have holds1: "holds A (states s1 ! i0)"
    using slot1 st0 by (simp add: slot_step_def holds_def dict_eq_def)
  have nothold1: "\<not> holds A (states s1 ! j)" if "j < ?n" "j \<noteq> i0" for j
    using other1 [OF that] new that(1) by simp
  have all1: "has_all_products (collectors s0) (states s1 ! i0)"
    using slot1 all0 by simp
  have old1: "lasts_of s1 ! j < lasts_of s1 ! i0" if "j < ?n" "j \<noteq> i0" for j
  proof -
    have "lasts_of s1 ! j = last_st (states s0 ! j) - Max (set (lasts_of s0))"
      using other1 [OF that] that(1) len1 by (simp add: lasts_of_nth)
    moreover have "lasts_of s1 ! i0 = 1"
      using slot1 i0 len1 by (simp add: lasts_of_nth)
    ultimately show ?thesis using last_le_Max [OF that(1)] by simp
  qed
  text \<open>The second evaluation leaves the slot of \<open>A\<close> as it is.\<close>
  have keep: "length (states s2) = ?n \<and> collectors s2 = collectors s0
      \<and> holds A (states s2 ! i0) \<and> has_all_products (collectors s0) (states s2 ! i0)
      \<and> derived (states s2 ! i0) = derived (states s1 ! i0)
      \<and> (\<forall>j<?n. j \<noteq> i0 \<longrightarrow> \<not> holds A (states s2 ! j))"
  proof (cases "lookup c2 B s1")
    case (Some k)
    from compute_hit_effect [OF Some, of sv d2] second
    have "s2 = s1\<lparr>states := touch (lasts_of s1) k (states s1)\<rparr>" by simp
    then show ?thesis using len1 c1 holds1 all1 nothold1 i0 by (simp add: touch_nth)
  next
    case None
    from len1 slots have ne1: "states s1 \<noteq> []" by auto
    from compute_miss_effect [OF None second ne1] obtain i1 t1 where
      old: "index_of (Min (set (lasts_of s1))) (lasts_of s1) = Some i1"
      and i1: "i1 < length (states s1)" and st1: "slot_step i1 (Some B) s1 t1"
      and c2: "collectors s2 = collectors s1"
      and s2: "(r2 = Inr 2 \<longrightarrow> states s2 = touch (lasts_of s1) i1 (states t1))
           \<and> (r2 \<noteq> Inr 2 \<longrightarrow> states s2 = states t1)"
      by auto
    from slots i0 obtain j where j: "j < ?n" "j \<noteq> i0"
      by (cases "i0 = 0") (auto intro: that [of 0] that [of 1])
    have "j < length (lasts_of s1)" using j len1 by (simp add: lasts_of_def)
    from oldest_not_newer [OF old this old1 [OF j]] have ne: "i1 \<noteq> i0" .
    from st1 have lt1: "length (states t1) = ?n" using len1 by (simp add: slot_step_def)
    have t1_i0: "states t1 ! i0 = states s1 ! i0" using st1 ne by (simp add: slot_step_def)
    have t1_nothold: "\<not> holds A (states t1 ! j)" if "j < ?n" "j \<noteq> i0" for j
    proof (cases "j = i1")
      case True
      from st1 have "params (states t1 ! i1) = Some B" by (simp add: slot_step_def)
      with differ True show ?thesis by (simp add: holds_other)
    next
      case False
      with st1 have "states t1 ! j = states s1 ! j" by (simp add: slot_step_def)
      with nothold1 [OF that] show ?thesis by simp
    qed
    show ?thesis
    proof (cases "r2 = Inr 2")
      case True
      with s2 have "states s2 = touch (lasts_of s1) i1 (states t1)" by simp
      then show ?thesis using lt1 c2 c1 t1_i0 holds1 all1 t1_nothold i0
        by (simp add: touch_nth)
    next
      case False
      with s2 have "states s2 = states t1" by simp
      then show ?thesis using lt1 c2 c1 t1_i0 holds1 all1 t1_nothold i0 by simp
    qed
  qed
  then have "lookup True A s2 = Some i0"
    using i0 by (intro lookup_unique) auto
  note hit = compute_hit_effect [OF this, of sv]
  have "d1 = Some [] \<longrightarrow> snd (fst (compute sv (Some []) True A s2)) = d1'"
  proof
    assume d1: "d1 = Some []"
    with dv0 obtain d where d: "d1' = Some d" "distinct (map fst d)"
      and "derived (states t0 ! i0) = d1'" by auto
    then have "derived (states s2 ! i0) = Some d" using keep slot1 by simp
    then show "snd (fst (compute sv (Some []) True A s2)) = d1'"
      using hit [of "Some []"] d dict_update_distinct [of "[]" d] by simp
  qed
  then show ?thesis using hit [of d3] by simp
qed

lemma initialize_demo: "initialize demo_config = Inr demo_fresh"
  by (simp add: initialize_def demo_config_def demo_fresh_def numeral_3_eq_3)

lemmas needs_defs = needs_def needs_one_def needs_background_def combine_z_def np_sort_def
  np_unique_def set_collector_def nonlinear_attr_def needs_Cl_def needs_Pk_def
  needs_source_Cl_def add_to_redshifts_def set_attr_flag_def raise_lmax_def num_arg_def

lemma needs_demo_H: "needs demo_solver [(''H'', ReqZ [1, 1/2])] demo_fresh = (None, demo_H)"
  by (simp add: needs_defs demo_H_def demo_fresh_def demo_config_def demo_solver_def z_collector_def)

lemmas compute_defs = compute_def lookup_def lasts_of_def empty_slot_def holds_def dict_eq_def
  compute_miss_def camb_set_def upd_slot_def dict_update_def translate_param_def set_base_def
  handle_set_error_def set_sources_def get_all_results_def store_derived_def get_derived_def
  touch_def compute_hit_def has_all_products_def put_product_def z_collector_def Let_def

lemmas demo_defs = demo_solver_def demo_H_def demo_fresh_def demo_config_def

text \<open>The hypotheses of \<open>cache_hit_on_revisit\<close> hold for \<open>H0 = 70\<close>, then 71, then 70.\<close>

theorem cache_hit_on_revisit_witness:
  "fst (fst (compute demo_solver None True pA
      (snd (compute demo_solver None True pB
         (snd (compute demo_solver (Some []) True pA demo_H)))))) = Inr 1
   \<and> solver_calls (snd (compute demo_solver None True pA
      (snd (compute demo_solver None True pB
         (snd (compute demo_solver (Some []) True pA demo_H))))))
     = solver_calls (snd (compute demo_solver None True pB
         (snd (compute demo_solver (Some []) True pA demo_H))))
   \<and> snd (fst (compute demo_solver (Some []) True pA
      (snd (compute demo_solver None True pB
         (snd (compute demo_solver (Some []) True pA demo_H)))))) = Some [(''age'', 14)]"
proof -
  let ?c1 = "compute demo_solver (Some []) True pA demo_H"
  let ?c2 = "compute demo_solver None True pB (snd ?c1)"
  have new: "\<forall>st\<in>set (states demo_H). \<not> holds pA st"
    by (simp add: demo_defs holds_def empty_slot_def)
  have slots: "1 < length (states demo_H)" by (simp add: demo_defs)
  have "fst ?c1 = (Inr 2, Some [(''age'', 14)])"
    by (simp add: compute_defs demo_defs pA_def)
  then have first: "?c1 = ((Inr 2, Some [(''age'', 14)]), snd ?c1)"
    by (metis prod.collapse)
  have second: "?c2 = ((fst (fst ?c2), snd (fst ?c2)), snd ?c2)" by simp
  have differ: "\<not> dict_eq pA pB" by (simp add: dict_eq_def pA_def pB_def)
  from cache_hit_on_revisit [OF new slots first second differ, of None]
  show ?thesis by simp
qed

section \<open>A new requirement invalidates the cached point\<close>

lemma compute_miss_not_hit: "fst (fst (compute_miss sv dv pvd lasts s)) \<noteq> Inr 1"
  by (auto simp: compute_miss_def split: option.splits sum.splits prod.splits bool.splits)

lemma hit_lookup:
  assumes "fst (fst (compute sv dv cached pvd s)) = Inr 1"
  shows "\<exists>i. lookup cached pvd s = Some i"
proof (cases "lookup cached pvd s")
  case None
  then have "compute sv dv cached pvd s = compute_miss sv dv pvd (lasts_of s) s"
    by (simp add: compute_def)
  with assms compute_miss_not_hit [of sv dv pvd "lasts_of s" s] show ?thesis by simp
next
  case (Some i)
  then show ?thesis by blast
qed

lemma has_all_products_iff:
  "has_all_products cs st \<longleftrightarrow> fst ` set cs \<subseteq> dom (products st)"
  by (auto simp: has_all_products_def list_all_iff)

lemma touch_products:
  "j < length sts \<Longrightarrow> products (touch lasts i sts ! j) = products (sts ! j)"
  by (simp add: touch_nth)

lemma compute_products_bound:
  assumes run: "compute sv dv cached pvd s = ((r, dv'), s')" and j: "j < length (states s)"
  shows "dom (products (states s' ! j))
     \<subseteq> dom (products (states s ! j)) \<union> fst ` set (collectors s)"
proof (cases "lookup cached pvd s")
  case (Some i)
  from compute_hit_effect [OF Some, of sv dv] run
  have "states s' = touch (lasts_of s) i (states s)" by auto
  with j show ?thesis by (simp add: touch_products)
next
  case None
  from j have ne: "states s \<noteq> []" by auto
  from compute_miss_effect [OF None run ne] obtain i t where
    st: "slot_step i (Some pvd) s t"
    and s': "(r = Inr 2 \<longrightarrow> states s' = touch (lasts_of s) i (states t))
           \<and> (r \<noteq> Inr 2 \<longrightarrow> states s' = states t)"
    by auto
  from st j have jt: "j < length (states t)" by (simp add: slot_step_def)
  have "products (states s' ! j) = products (states t ! j)"
    using s' jt by (cases "r = Inr 2") (simp_all add: touch_products)
  moreover have "dom (products (states t ! j))
     \<subseteq> dom (products (states s ! j)) \<union> fst ` set (collectors s)"
    using st by (cases "j = i") (auto simp: slot_step_def)
  ultimately show ?thesis by simp
qed

lemma compute_length:
  assumes "compute sv dv cached pvd s = ((r, dv'), s')"
  shows "length (states s') = length (states s)"
proof (cases "states s = []")
  case True
  then have "lookup cached pvd s = None" by (simp add: lookup_def)
  with assms True show ?thesis
    by (auto simp: compute_def compute_miss_def lasts_of_def)
next
  case False
  show ?thesis
  proof (cases "lookup cached pvd s")
    case (Some i)
    from compute_hit_effect [OF Some, of sv dv] assms show ?thesis by auto
  next
    case None
    from compute_miss_effect [OF None assms False] obtain i t where
      st: "slot_step i (Some pvd) s t"
      and s': "(r = Inr 2 \<longrightarrow> states s' = touch (lasts_of s) i (states t))
           \<and> (r \<noteq> Inr 2 \<longrightarrow> states s' = states t)"
      by auto
    then show ?thesis by (cases "r = Inr 2") (simp_all add: slot_step_def)
  qed
qed

text \<open>
  Claim C6. After an evaluation of \<open>A\<close>, registering a collector under a key \<open>k\<close> for
  which nothing was ever computed (the slots are left as they are, which is what
  \<open>needs\<close> does) makes the next evaluation of \<open>A\<close> a miss: its status is not 1. In
  general, status 1 is returned only when a slot holds the queried parameters and has a
  result for every registered collector key.
\<close>

theorem new_requirement_forces_miss:
  assumes first: "compute sv d1 c1 A s0 = ((r1, d1'), s1)"
    and unknown: "\<forall>st\<in>set (states s0). products st k = None"
    and unregistered: "k \<notin> fst ` set (collectors s0)"
    and rebuilt: "states s1' = states s1"
    and registered: "k \<in> fst ` set (collectors s1')"
  shows "fst (fst (compute sv d2 c2 A s1')) \<noteq> Inr 1
    \<and> (\<forall>s d c p. fst (fst (compute sv d c p s)) = Inr 1 \<longrightarrow>
          (\<exists>i<length (states s). holds p (states s ! i)
             \<and> (\<forall>k'\<in>fst ` set (collectors s). products (states s ! i) k' \<noteq> None)))"
proof
  show "fst (fst (compute sv d2 c2 A s1')) \<noteq> Inr 1"
  proof
    assume "fst (fst (compute sv d2 c2 A s1')) = Inr 1"
    then obtain i where "lookup c2 A s1' = Some i" using hit_lookup by blast
    from lookup_SomeD(2,5) [OF this] registered rebuilt
    have i: "i < length (states s1)" and "k \<in> dom (products (states s1 ! i))"
      by (auto simp: has_all_products_iff)
    moreover from compute_length [OF first] i have i0: "i < length (states s0)" by simp
    moreover from unknown i0 have "k \<notin> dom (products (states s0 ! i))" by auto
    ultimately show False
      using compute_products_bound [OF first i0] unregistered by blast
  qed
next
  show "\<forall>s d c p. fst (fst (compute sv d c p s)) = Inr 1 \<longrightarrow>
          (\<exists>i<length (states s). holds p (states s ! i)
             \<and> (\<forall>k'\<in>fst ` set (collectors s). products (states s ! i) k' \<noteq> None))"
  proof (intro allI impI)
    fix s :: "('a, 'b) camb" and d c p
    assume "fst (fst (compute sv d c p s)) = Inr 1"
    then obtain i where "lookup c p s = Some i" using hit_lookup by blast
    from lookup_SomeD(2,3,5) [OF this]
    show "\<exists>i<length (states s). holds p (states s ! i)
             \<and> (\<forall>k'\<in>fst ` set (collectors s). products (states s ! i) k' \<noteq> None)"
      by (auto simp: has_all_products_iff)
  qed
qed

text \<open>\<open>needs\<close> never touches the slots.\<close>

lemma add_to_redshifts_states: "states (snd (add_to_redshifts z s)) = states s"
  by (simp add: add_to_redshifts_def split: sum.splits)

lemma cosmo_needs_states: "states (snd (cosmo_needs reqs s)) = states s"
  by (induction reqs arbitrary: s) (auto split: option.splits sum.splits)

lemma set_collector_states [simp]: "states (set_collector k c s) = states s"
  by (simp add: set_collector_def)

lemma set_attr_flag_states [simp]: "states (set_attr_flag a s) = states s"
  by (simp add: set_attr_flag_def)

lemma raise_lmax_states [simp]: "states (raise_lmax l s) = states s"
  by (simp add: raise_lmax_def)

lemma foldl_set_collector_states:
  "states (foldl (\<lambda>acc pair. set_collector (f pair) c acc) s pairs) = states s"
  by (induction pairs arbitrary: s) simp_all

lemma needs_Pk_states: "states (snd (needs_Pk sv k v s)) = states s"
proof (cases v)
  case (ReqPk k_max z vars_pairs nonlinear hubble_units k_hunit)
  let ?s1 = "s\<lparr>extra_args := AList.update ''kmax'' (Num (max k_max (num_arg (extra_args s) ''kmax''))) (extra_args s)\<rparr>"
  have a: "states (snd (add_to_redshifts z ?s1)) = states s"
    by (simp add: add_to_redshifts_states)
  show ?thesis
  proof (cases "add_to_redshifts z ?s1")
    case (Pair e s2)
    with a have s2: "states s2 = states s" by simp
    show ?thesis
      using ReqPk Pair s2
      by (cases e) (simp_all add: needs_Pk_def Let_def foldl_set_collector_states)
  qed
qed (simp_all add: needs_Pk_def)

lemma needs_one_states: "states (snd (needs_one sv k v s)) = states s"
proof -
  have bg: "states (snd (needs_background q m z s)) = states s" for q m z
    by (simp add: needs_background_def split: sum.splits)
  have cl: "states (snd (needs_Cl d s)) = states s" for d
    by (simp add: needs_Cl_def Let_def)
  have src: "states (snd (needs_source_Cl w s)) = states s" for w
    by (cases w) (simp_all add: needs_source_Cl_def Let_def split: option.splits)
  have fs: "states (snd (case add_to_redshifts z s of
                (Some e, s') \<Rightarrow> (Some e, s')
              | (None, s') \<Rightarrow> (None, f s'))) = states s"
    if "\<And>x. states (f x) = states x" for z f
    using add_to_redshifts_states [of z s] that
    by (cases "add_to_redshifts z s") (auto split: option.splits)
  have hb: "states (snd (case needs_background q m z s of
                (Some e, s') \<Rightarrow> (Some e, s')
              | (None, s') \<Rightarrow> (None, f s'))) = states s"
    if "\<And>x. states (f x) = states x" for q m z f
    using bg [of q m z] that
    by (cases "needs_background q m z s") (auto split: option.splits)
  show ?thesis
    unfolding needs_one_def
    by (cases v) (simp_all add: bg cl src fs hb needs_Pk_states Let_def)
qed

lemma needs_loop_states: "states (snd (needs_loop sv reqs s)) = states s"
proof (induction reqs arbitrary: s)
  case Nil
  then show ?case by simp
next
  case (Cons kv reqs)
  obtain k v where kv: "kv = (k, v)" by (cases kv)
  obtain e s1 where one: "needs_one sv k v s = (e, s1)" by (cases "needs_one sv k v s")
  with needs_one_states [of sv k v s] have "states s1 = states s" by simp
  with Cons.IH [of s1] kv one show ?case by (cases e) simp_all
qed

lemma needs_states: "states (snd (needs sv reqs s)) = states s"
proof -
  obtain e0 s0 where c: "cosmo_needs reqs s = (e0, s0)" by (cases "cosmo_needs reqs s")
  with cosmo_needs_states [of reqs s] have s0: "states s0 = states s" by simp
  obtain e1 s1 where l: "needs_loop sv (needs_acc s0) s0 = (e1, s1)"
    by (cases "needs_loop sv (needs_acc s0) s0")
  with needs_loop_states [of sv "needs_acc s0" s0] s0 have s1: "states s1 = states s" by simp
  show ?thesis using c l s0 s1
    by (cases e0; cases e1) (simp_all add: needs_def Let_def)
qed

lemma needs_demo_Cl:
  "needs demo_solver [(''Cl'', ReqCl [(''tt'', 1000), (''pp'', 500)])] demo_fresh = (None, demo_Cl)"
  by (simp add: needs_defs demo_Cl_def demo_fresh_def demo_config_def demo_solver_def
      lower_def lower_char_def)

text \<open>
  Evaluate \<open>H0 = 70\<close> with \<open>Cl\<close> required, declare \<open>fsigma8\<close>, evaluate \<open>H0 = 70\<close> again.
\<close>

theorem new_requirement_forces_miss_witness:
  "fst (fst (compute demo_solver None True pA
      (snd (needs demo_solver [(''fsigma8'', ReqZ [1, 1/2])]
         (snd (compute demo_solver None True pA demo_Cl)))))) \<noteq> Inr 1
   \<and> fst (fst (compute demo_solver None True pA demo_Cl)) = Inr 2"
proof -
  let ?c1 = "compute demo_solver None True pA demo_Cl"
  let ?s1' = "snd (needs demo_solver [(''fsigma8'', ReqZ [1, 1/2])] (snd ?c1))"
  have first: "?c1 = ((fst (fst ?c1), snd (fst ?c1)), snd ?c1)" by simp
  have unknown: "\<forall>st\<in>set (states demo_Cl). products st (Name ''fsigma8'') = None"
    by (simp add: demo_Cl_def demo_fresh_def demo_config_def empty_slot_def)
  have unregistered: "Name ''fsigma8'' \<notin> fst ` set (collectors demo_Cl)"
    by (simp add: demo_Cl_def demo_fresh_def demo_config_def)
  have rebuilt: "states ?s1' = states (snd ?c1)" by (rule needs_states)
  have registered: "Name ''fsigma8'' \<in> fst ` set (collectors ?s1')"
    by (simp add: compute_defs needs_defs demo_Cl_def demo_fresh_def demo_config_def
        demo_solver_def pA_def lower_def lower_char_def)
  have "fst (fst ?c1) = Inr 2"
    by (simp add: compute_defs demo_Cl_def demo_fresh_def demo_config_def demo_solver_def pA_def)
  with new_requirement_forces_miss [OF first unknown unregistered rebuilt registered, of None True]
  show ?thesis by simp
qed

section \<open>Slots holding the same parameters\<close>

lemma oldest_iff:
  assumes "xs \<noteq> []"
  shows "index_of (Min (set xs)) xs = Some i \<longleftrightarrow>
     i < length xs \<and> (\<forall>j<length xs. xs ! i \<le> xs ! j) \<and> (\<forall>j<i. xs ! i < xs ! j)"
    (is "?L \<longleftrightarrow> ?R")
proof
  assume ?L
  from index_of_SomeD [OF this]
  have i: "i < length xs" and m: "xs ! i = Min (set xs)"
    and first: "\<forall>j<i. xs ! j \<noteq> Min (set xs)" by simp_all
  have le: "xs ! i \<le> xs ! j" if "j < length xs" for j
    using m that by simp
  have "xs ! i < xs ! j" if "j < i" for j
  proof -
    from that i have "j < length xs" by simp
    then have "Min (set xs) \<le> xs ! j" by simp
    moreover from first that have "xs ! j \<noteq> Min (set xs)" by simp
    ultimately show ?thesis unfolding m by (auto simp: less_le)
  qed
  with i le show ?R by blast
next
  assume r: ?R
  then have i: "i < length xs" by simp
  have "Min (set xs) = xs ! i"
  proof (rule Min_eqI)
    show "finite (set xs)" by simp
    show "xs ! i \<le> y" if "y \<in> set xs" for y
      using that r by (auto simp: in_set_conv_nth)
    show "xs ! i \<in> set xs" using i by simp
  qed
  then have m: "xs ! i = Min (set xs)" by simp
  from index_of_Min [OF assms] obtain k where k: "index_of (Min (set xs)) xs = Some k" by blast
  from index_of_SomeD [OF k] have kl: "k < length xs" and km: "xs ! k = Min (set xs)"
    and kfirst: "\<forall>j<k. xs ! j \<noteq> Min (set xs)" by simp_all
  have "k = i"
  proof (rule ccontr)
    assume "k \<noteq> i"
    then consider "k < i" | "i < k" by arith
    then show False
    proof cases
      case 1
      with r have "xs ! i < xs ! k" by simp
      with m km show False by simp
    next
      case 2
      with kfirst m show False by simp
    qed
  qed
  with k show ?L by simp
qed

lemma oldest_after_touch:
  fixes xs :: "int list"
  assumes old: "index_of (Min (set xs)) xs = Some i" and k: "k < length xs" and ne: "k \<noteq> i"
  shows "index_of (Min (set ((map (\<lambda>x. x - Max (set xs)) xs)[k := 1])))
           ((map (\<lambda>x. x - Max (set xs)) xs)[k := 1]) = Some i"
proof -
  let ?M = "Max (set xs)"
  let ?ys = "(map (\<lambda>x. x - ?M) xs)[k := 1]"
  from k have xs: "xs \<noteq> []" by auto
  then have ys: "?ys \<noteq> []" by simp
  from old xs have i: "i < length xs" and le: "\<forall>j<length xs. xs ! i \<le> xs ! j"
    and lt: "\<forall>j<i. xs ! i < xs ! j"
    by (simp_all add: oldest_iff)
  have nth: "?ys ! j = (if j = k then 1 else xs ! j - ?M)" if "j < length xs" for j
    using that by (simp add: nth_list_update)
  have nonpos: "xs ! j - ?M \<le> 0" if "j < length xs" for j
    using that by simp
  have yi: "?ys ! i = xs ! i - ?M" using nth [OF i] ne by simp
  have "\<forall>j<length ?ys. ?ys ! i \<le> ?ys ! j"
  proof (intro allI impI)
    fix j assume "j < length ?ys"
    then have j: "j < length xs" by simp
    show "?ys ! i \<le> ?ys ! j"
      using nth [OF j] yi nonpos [OF i] le j by (cases "j = k") auto
  qed
  moreover have "\<forall>j<i. ?ys ! i < ?ys ! j"
  proof (intro allI impI)
    fix j assume ji: "j < i"
    with i have j: "j < length xs" by simp
    show "?ys ! i < ?ys ! j"
      using nth [OF j] yi nonpos [OF i] lt ji by (cases "j = k") auto
  qed
  moreover have "i < length ?ys" using i by simp
  ultimately show ?thesis using oldest_iff [OF ys, of i] by blast
qed

lemma lasts_of_touch:
  assumes "k < length sts"
  shows "map last_st (touch lasts k sts) = (map (\<lambda>x. x - Max (set lasts)) (map last_st sts))[k := 1]"
  using assms by (auto simp: touch_nth nth_list_update intro!: nth_equalityI)

lemma dict_eq_trans: "dict_eq a b \<Longrightarrow> dict_eq b c \<Longrightarrow> dict_eq a c"
  by (simp add: dict_eq_def)

lemma holds_iff: "holds p st \<longleftrightarrow> (\<exists>q. params st = Some q \<and> dict_eq q p)"
  by (simp add: holds_def split: option.splits)

lemma touch_params:
  "j < length sts \<Longrightarrow> params (touch lasts i sts ! j) = params (sts ! j)"
  by (simp add: touch_nth)

lemma cache_inv_hit:
  assumes inv: "cache_inv s" and hit: "lookup True pvd s = Some k"
  shows "cache_inv (s\<lparr>states := touch (lasts_of s) k (states s)\<rparr>)"
proof -
  let ?s' = "s\<lparr>states := touch (lasts_of s) k (states s)\<rparr>"
  from lookup_SomeD [OF hit] have k: "k < length (states s)"
    and complete: "has_all_products (collectors s) (states s ! k)" by simp_all
  have nd: "no_duplicates ?s'"
    using inv by (simp add: cache_inv_def no_duplicates_def touch_nth)
  have "incomplete_is_oldest ?s'"
    unfolding incomplete_is_oldest_def
  proof (intro allI impI)
    fix i assume i: "i < length (states ?s')"
      and inc: "params (states ?s' ! i) \<noteq> None
         \<and> \<not> has_all_products (collectors ?s') (states ?s' ! i)"
    from i have il: "i < length (states s)" by simp
    from inc il have "params (states s ! i) \<noteq> None"
      and ninc: "\<not> has_all_products (collectors s) (states s ! i)"
      by (simp_all add: touch_nth)
    with inv il have old: "index_of (Min (set (lasts_of s))) (lasts_of s) = Some i"
      by (simp add: cache_inv_def incomplete_is_oldest_def)
    from ninc complete have ne: "k \<noteq> i" by auto
    have "lasts_of ?s' = (map (\<lambda>x. x - Max (set (lasts_of s))) (lasts_of s))[k := 1]"
      using k by (simp add: lasts_of_def lasts_of_touch)
    moreover have "k < length (lasts_of s)" using k by (simp add: lasts_of_def)
    ultimately show "index_of (Min (set (lasts_of ?s'))) (lasts_of ?s') = Some i"
      using oldest_after_touch [OF old _ ne] by simp
  qed
  with nd show ?thesis by (simp add: cache_inv_def)
qed

lemma cache_inv_miss:
  assumes inv: "cache_inv s" and miss: "lookup True pvd s = None"
    and run: "compute sv dv True pvd s = ((r, dv'), s')" and ne: "states s \<noteq> []"
  shows "cache_inv s'"
proof -
  let ?n = "length (states s)"
  from compute_miss_effect [OF miss run ne] obtain i0 t where
    old: "index_of (Min (set (lasts_of s))) (lasts_of s) = Some i0"
    and i0: "i0 < ?n" and st: "slot_step i0 (Some pvd) s t"
    and c': "collectors s' = collectors s"
    and fresh: "r = Inr 2 \<longrightarrow> states s' = touch (lasts_of s) i0 (states t)
           \<and> has_all_products (collectors s) (states t ! i0)"
    and other: "r \<noteq> Inr 2 \<longrightarrow> states s' = states t"
    by auto
  from st have lt: "length (states t) = ?n"
    and same: "\<And>j. j \<noteq> i0 \<Longrightarrow> states t ! j = states s ! j"
    and pt: "params (states t ! i0) = Some pvd"
    and lastt: "last_st (states t ! i0) = last_st (states s ! i0)"
    by (simp_all add: slot_step_def)
  have len': "length (states s') = ?n"
    using fresh other lt by (cases "r = Inr 2") simp_all
  have params': "params (states s' ! j) = params (states t ! j)" if "j < ?n" for j
    using fresh other lt that by (cases "r = Inr 2") (simp_all add: touch_nth)
  have prods': "products (states s' ! j) = products (states t ! j)" if "j < ?n" for j
    using fresh other lt that by (cases "r = Inr 2") (simp_all add: touch_nth)
  text \<open>No other slot holds the parameters of this evaluation.\<close>
  have absent: "\<not> holds pvd (states s ! j)" if j: "j < ?n" "j \<noteq> i0" for j
  proof
    assume hj: "holds pvd (states s ! j)"
    then obtain q' where q': "params (states s ! j) = Some q'" "dict_eq q' pvd"
      by (auto simp: holds_iff)
    from hj j(1) have "first_index (holds pvd) (states s) \<noteq> None"
      by (auto simp: first_index_None)
    then obtain f where f: "first_index (holds pvd) (states s) = Some f" by auto
    from first_index_SomeD [OF f] have fl: "f < ?n" and hf: "holds pvd (states s ! f)"
      by simp_all
    from miss f have "\<not> has_all_products (collectors s) (states s ! f)"
      by (simp add: lookup_def split: if_splits)
    moreover from hf have "params (states s ! f) \<noteq> None" by (auto simp: holds_iff)
    ultimately have "index_of (Min (set (lasts_of s))) (lasts_of s) = Some f"
      using inv fl by (simp add: cache_inv_def incomplete_is_oldest_def)
    with old have "f = i0" by simp
    with hf obtain q where q: "params (states s ! i0) = Some q" "dict_eq q pvd"
      by (auto simp: holds_iff)
    from inv i0 j q(1) have "\<not> holds q (states s ! j)"
      by (simp add: cache_inv_def no_duplicates_def)
    moreover from q'(2) q(2) have "dict_eq q' q"
      using dict_eq_trans dict_eq_sym by blast
    ultimately show False using q'(1) by (simp add: holds_iff)
  qed
  have nd: "no_duplicates s'"
    unfolding no_duplicates_def
  proof (intro allI impI)
    fix i j p
    assume "i < length (states s')" "j < length (states s')" and ij: "i \<noteq> j"
      and pi: "params (states s' ! i) = Some p"
    then have i: "i < ?n" and j: "j < ?n" using len' by simp_all
    have hj: "holds p (states s' ! j) \<longleftrightarrow> holds p (states t ! j)"
      using params' [OF j] by (simp add: holds_iff)
    from pi params' [OF i] have pit: "params (states t ! i) = Some p" by simp
    show "\<not> holds p (states s' ! j)"
    proof (cases "i = i0")
      case True
      with pit pt have "p = pvd" by simp
      moreover from True ij have "j \<noteq> i0" by simp
      ultimately show ?thesis using absent [OF j] hj same by simp
    next
      case False
      with pit same have pis: "params (states s ! i) = Some p" by simp
      show ?thesis
      proof (cases "j = i0")
        case True
        show ?thesis
        proof
          assume "holds p (states s' ! j)"
          with hj True pt have "dict_eq pvd p" by (simp add: holds_iff)
          then have "holds pvd (states s ! i)"
            using pis by (simp add: holds_iff dict_eq_sym [of p pvd])
          with absent [OF i False] show False by simp
        qed
      next
        case False
        with same hj have "holds p (states s' ! j) \<longleftrightarrow> holds p (states s ! j)" by simp
        with inv i j ij pis show ?thesis by (simp add: cache_inv_def no_duplicates_def)
      qed
    qed
  qed
  text \<open>An incomplete slot other than \<open>i0\<close> would have been incomplete before.\<close>
  have inc_only_i0: "i = i0"
    if i: "i < ?n" and inc: "params (states s' ! i) \<noteq> None"
      "\<not> has_all_products (collectors s') (states s' ! i)" for i
  proof (rule ccontr)
    assume "i \<noteq> i0"
    with same have "states t ! i = states s ! i" by simp
    with inc params' [OF i] prods' [OF i] c'
    have "params (states s ! i) \<noteq> None \<and> \<not> has_all_products (collectors s) (states s ! i)"
      by (simp add: has_all_products_iff)
    with inv i have "index_of (Min (set (lasts_of s))) (lasts_of s) = Some i"
      by (simp add: cache_inv_def incomplete_is_oldest_def)
    with old \<open>i \<noteq> i0\<close> show False by simp
  qed
  have "incomplete_is_oldest s'"
  proof (cases "r = Inr 2")
    case True
    with fresh prods' [OF i0] c'
    have "has_all_products (collectors s') (states s' ! i0)"
      by (simp add: has_all_products_iff)
    with inc_only_i0 len' show ?thesis by (auto simp: incomplete_is_oldest_def)
  next
    case False
    with other have "states s' = states t" by simp
    moreover have "map last_st (states t) = map last_st (states s)"
      using lt same lastt by (intro nth_equalityI) (auto, metis)
    ultimately have "lasts_of s' = lasts_of s" by (simp add: lasts_of_def)
    with old inc_only_i0 len' show ?thesis by (auto simp: incomplete_is_oldest_def)
  qed
  with nd show ?thesis by (simp add: cache_inv_def)
qed

lemma cache_inv_step:
  assumes "cache_inv s" and "compute sv dv True pvd s = (out, s')"
  shows "cache_inv s'"
proof (cases "states s = []")
  case True
  from assms(2) have "length (states s') = length (states s)"
    using compute_length [of sv dv True pvd s "fst out" "snd out" s'] by simp
  with True show ?thesis
    by (simp add: cache_inv_def no_duplicates_def incomplete_is_oldest_def)
next
  case False
  show ?thesis
  proof (cases "lookup True pvd s")
    case None
    from assms(2) have "compute sv dv True pvd s = ((fst out, snd out), s')" by simp
    from cache_inv_miss [OF assms(1) None this False] show ?thesis .
  next
    case (Some k)
    from compute_hit_effect [OF Some, of sv dv] assms(2)
    have "s' = s\<lparr>states := touch (lasts_of s) k (states s)\<rparr>" by simp
    with cache_inv_hit [OF assms(1) Some] show ?thesis by simp
  qed
qed

lemma cache_inv_fresh:
  assumes "\<forall>st\<in>set (states s0). params st = None"
  shows "cache_inv s0"
  using assms by (simp add: cache_inv_def no_duplicates_def incomplete_is_oldest_def)

lemma cached_run_inv: "cached_run sv s0 s \<Longrightarrow> cache_inv s0 \<Longrightarrow> cache_inv s"
  by (induction rule: cached_run.induct) (auto intro: cache_inv_step)

text \<open>
  Claim C5, as amended. In every state reached from a pool of empty slots by calls of
  \<open>compute\<close> with caching enabled (whatever their outcome: a hit, a fresh computation,
  a zero-result or an exception), with the collectors unchanged, no two slots hold equal
  parameter mappings.
\<close>

theorem no_duplicate_slots_when_cached:
  assumes "\<forall>st\<in>set (states s0). params st = None"
    and "cached_run sv s0 s"
    and "i < length (states s)" and "j < length (states s)" and "i \<noteq> j"
    and "params (states s ! i) = Some p" and "params (states s ! j) = Some q"
  shows "\<not> dict_eq p q"
proof -
  from cached_run_inv [OF assms(2) cache_inv_fresh [OF assms(1)]]
  have "no_duplicates s" by (simp add: cache_inv_def)
  with assms(3-7) have "\<not> holds q (states s ! i)"
    unfolding no_duplicates_def by (metis)
  with assms(6) show ?thesis by (simp add: holds_iff)
qed

theorem no_duplicate_slots_when_cached_witness:
  "fst (fst (compute demo_solver None True pA demo_H)) = Inr 2
   \<and> fst (fst (compute demo_solver None True pBad
          (snd (compute demo_solver None True pA demo_H)))) = Inr 0
   \<and> params (states (snd (compute demo_solver None True pBad
          (snd (compute demo_solver None True pA demo_H)))) ! 0) = Some pA
   \<and> params (states (snd (compute demo_solver None True pBad
          (snd (compute demo_solver None True pA demo_H)))) ! 1) = Some pBad
   \<and> \<not> dict_eq pA pBad"
proof -
  let ?s1 = "snd (compute demo_solver None True pA demo_H)"
  let ?s2 = "snd (compute demo_solver None True pBad ?s1)"
  have fresh: "\<forall>st\<in>set (states demo_H). params st = None"
    by (simp add: demo_defs empty_slot_def)
  have run: "cached_run demo_solver demo_H ?s2"
    by (rule cached_run.step [OF cached_run.step [OF cached_run.start]])
      (rule surjective_pairing)+
  have ev: "fst (fst (compute demo_solver None True pA demo_H)) = Inr 2"
    "fst (fst (compute demo_solver None True pBad ?s1)) = Inr 0"
    "length (states ?s2) = 3"
    "params (states ?s2 ! 0) = Some pA" "params (states ?s2 ! 1) = Some pBad"
    by (simp_all add: compute_defs demo_defs pA_def pBad_def)
  from ev(3) have "0 < length (states ?s2)" "1 < length (states ?s2)" by simp_all
  from no_duplicate_slots_when_cached [OF fresh run this _ ev(4,5)] ev
  show ?thesis by simp
qed

text \<open>
  The claim as stated fails: two evaluations of the same parameters with caching
  disabled fill two slots with them.
\<close>

theorem duplicate_slots_counterexample:
  "params (states (snd (compute demo_solver None False pA
       (snd (compute demo_solver None False pA demo_H)))) ! 0) = Some pA
   \<and> params (states (snd (compute demo_solver None False pA
       (snd (compute demo_solver None False pA demo_H)))) ! 1) = Some pA
   \<and> dict_eq pA pA"
  by (simp add: compute_defs demo_defs pA_def)

end
